theory Spec2Isabelle
  imports Complex_Main
begin

section \<open>JavaScript values, errors and the JSON codec\<close>

text \<open>
  The two classes of the repository, \<^verbatim>\<open>MessageQueue\<close> and \<^verbatim>\<open>MessageStream\<close>, are wrappers
  round a Redis client. Every method is a sequence of awaited client calls inside
  \<^verbatim>\<open>try\<close>/\<^verbatim>\<open>catch\<close> blocks, so a method is modelled as a function from the world
  before the call to the method's outcome (\<open>Inl\<close> the error it throws, \<open>Inr\<close> the value
  it returns) and the world after it.

  A JavaScript number is \<open>NaN\<close>, an infinity or a finite number; the finite ones are
  represented by the rational they denote (\<open>-0\<close> is identified with \<open>0\<close>, as \<^verbatim>\<open>===\<close> does).
  An object is the list of its own properties in insertion order.
\<close>

datatype jsnum = NaN | PosInfinity | NegInfinity | Fin rat

datatype jsval =
    JUndefined
  | JNull
  | JBool bool
  | JNum jsnum
  | JStr string
  | JArr "jsval list"
  | JObj "(string \<times> jsval) list"

text \<open>
  A thrown value: the \<^verbatim>\<open>name\<close> and \<^verbatim>\<open>message\<close> of the error object. \<^verbatim>\<open>Error(msg)\<close> builds
  an error named \<^verbatim>\<open>Error\<close>.
\<close>

datatype js_error = JsError (err_name: string) (err_message: string)

definition Error :: "string \<Rightarrow> js_error" where
  "Error msg = JsError ''Error'' msg"

definition SyntaxError :: js_error where
  "SyntaxError = JsError ''SyntaxError'' ''Unexpected token in JSON''"

definition TypeError :: "string \<Rightarrow> js_error" where
  "TypeError msg = JsError ''TypeError'' msg"

text \<open>
  JSON text. A string handed to \<^verbatim>\<open>JSON.parse\<close> either is the text of a JSON document or
  is malformed; a string is represented by which of the two it is, and by the document
  it spells when it is one.
\<close>

datatype json =
    JsonNull
  | JsonBool bool
  | JsonNum rat
  | JsonStr string
  | JsonArr "json list"
  | JsonObj "(string \<times> json) list"

datatype jstext = Doc json | Malformed

text \<open>
  \<^verbatim>\<open>JSON.stringify(v)\<close>: \<open>None\<close> is the result \<^verbatim>\<open>undefined\<close> (the argument has no JSON
  text). Inside an array \<^verbatim>\<open>undefined\<close> is written \<^verbatim>\<open>null\<close>, inside an object a property
  whose value is \<^verbatim>\<open>undefined\<close> is left out, and a number that is not finite is written
  \<^verbatim>\<open>null\<close>.
\<close>

fun to_json :: "jsval \<Rightarrow> json option"
  and to_json_elems :: "jsval list \<Rightarrow> json list"
  and to_json_props :: "(string \<times> jsval) list \<Rightarrow> (string \<times> json) list"
where
  "to_json JUndefined = None"
| "to_json JNull = Some JsonNull"
| "to_json (JBool b) = Some (JsonBool b)"
| "to_json (JNum n) = Some (case n of Fin r \<Rightarrow> JsonNum r | _ \<Rightarrow> JsonNull)"
| "to_json (JStr s) = Some (JsonStr s)"
| "to_json (JArr vs) = Some (JsonArr (to_json_elems vs))"
| "to_json (JObj kvs) = Some (JsonObj (to_json_props kvs))"
| "to_json_elems [] = []"
| "to_json_elems (v # vs) =
     (case to_json v of None \<Rightarrow> JsonNull | Some j \<Rightarrow> j) # to_json_elems vs"
| "to_json_props [] = []"
| "to_json_props ((k, v) # kvs) =
     (case to_json v of None \<Rightarrow> to_json_props kvs | Some j \<Rightarrow> (k, j) # to_json_props kvs)"

definition JSON_stringify :: "jsval \<Rightarrow> jstext option" where
  "JSON_stringify v = map_option Doc (to_json v)"

text \<open>
  Defining a property of an object: an existing key keeps its place and takes the new
  value, a new key goes last. \<^verbatim>\<open>JSON.parse\<close> defines the members of an object in the
  order of the text, so of two members with one key the later value stands.
\<close>

fun set_prop :: "(string \<times> 'a) list \<Rightarrow> string \<Rightarrow> 'a \<Rightarrow> (string \<times> 'a) list" where
  "set_prop [] k v = [(k, v)]"
| "set_prop ((k', v') # kvs) k v =
     (if k' = k then (k, v) # kvs else (k', v') # set_prop kvs k v)"

fun mk_object :: "(string \<times> 'a) list \<Rightarrow> (string \<times> 'a) list \<Rightarrow> (string \<times> 'a) list" where
  "mk_object acc [] = acc"
| "mk_object acc ((k, v) # kvs) = mk_object (set_prop acc k v) kvs"

fun of_json :: "json \<Rightarrow> jsval"
  and of_json_elems :: "json list \<Rightarrow> jsval list"
  and of_json_props :: "(string \<times> json) list \<Rightarrow> (string \<times> jsval) list"
where
  "of_json JsonNull = JNull"
| "of_json (JsonBool b) = JBool b"
| "of_json (JsonNum r) = JNum (Fin r)"
| "of_json (JsonStr s) = JStr s"
| "of_json (JsonArr js) = JArr (of_json_elems js)"
| "of_json (JsonObj kjs) = JObj (mk_object [] (of_json_props kjs))"
| "of_json_elems [] = []"
| "of_json_elems (j # js) = of_json j # of_json_elems js"
| "of_json_props [] = []"
| "of_json_props ((k, j) # kjs) = (k, of_json j) # of_json_props kjs"

text \<open>
  \<^verbatim>\<open>JSON.parse(x)\<close> converts its argument to a string first: \<^verbatim>\<open>null\<close> becomes the text
  \<^verbatim>\<open>null\<close>, which is a document, and \<^verbatim>\<open>undefined\<close> becomes the text \<^verbatim>\<open>undefined\<close>, which is
  not. Malformed text throws a \<^verbatim>\<open>SyntaxError\<close>.
\<close>

datatype parse_arg = ArgUndefined | ArgNull | ArgString jstext

fun JSON_parse :: "parse_arg \<Rightarrow> js_error + jsval" where
  "JSON_parse ArgUndefined = Inl SyntaxError"
| "JSON_parse ArgNull = Inr JNull"
| "JSON_parse (ArgString Malformed) = Inl SyntaxError"
| "JSON_parse (ArgString (Doc j)) = Inr (of_json j)"

text \<open>Truthiness, as \<^verbatim>\<open>if (x)\<close> and \<^verbatim>\<open>!x\<close> test it.\<close>

fun truthy :: "jsval \<Rightarrow> bool" where
  "truthy JUndefined = False"
| "truthy JNull = False"
| "truthy (JBool b) = b"
| "truthy (JNum n) = (case n of Fin r \<Rightarrow> r \<noteq> 0 | NaN \<Rightarrow> False | _ \<Rightarrow> True)"
| "truthy (JStr s) = (s \<noteq> [])"
| "truthy (JArr vs) = True"
| "truthy (JObj kvs) = True"

section \<open>The Redis client\<close>

text \<open>
  The client (\<^verbatim>\<open>redis.createClient\<close>) and the server behind it are the environment of
  both classes. The model keeps what the wrappers can observe of them:
  \<^item> the lists and the streams of the server, by key;
  \<^item> \<open>script\<close>, the transport's outcome for each coming client call, in order: \<open>Some e\<close>
    when the call is to reject with \<open>e\<close> before it reaches the server (a closed or broken
    connection), \<open>None\<close> when it reaches the server; calls beyond the script reach the
    server;
  \<^item> \<open>log\<close>, the history of the client calls made, each with whether it succeeded;
  \<^item> \<open>console\<close>, what \<^verbatim>\<open>console.error\<close> has printed.

  Entry IDs of a stream are kept as the number of their millisecond part and are written
  \<^verbatim>\<open><ms>-0\<close> on the wire. A consumer group is its last-delivered ID and its list of pending
  entries (ID and owning consumer), oldest first.
\<close>

record xgroup =
  last_delivered :: nat
  pending :: "(nat \<times> string) list"

record xstream =
  entries :: "(nat \<times> (string \<times> jstext) list) list"
  top :: nat
  groups :: "string \<Rightarrow> xgroup option"

datatype command =
    CONNECT
  | DISCONNECT
  | RPUSH string "jstext option"
  | LPOP string
  | LLEN string
  | XGROUP_CREATE string string string bool
  | XADD string string "jstext option"
  | XAUTOCLAIM string string string nat string nat
  | XREADGROUP string string string string nat nat
  | XACK string string string
  | XDEL string "string list"
  | XLEN string

record world =
  lists :: "string \<Rightarrow> jstext list"
  streams :: "string \<Rightarrow> xstream option"
  script :: "js_error option list"
  log :: "(command \<times> bool) list"
  console :: "js_error list"

definition console_error :: "js_error \<Rightarrow> world \<Rightarrow> world" where
  "console_error e w = w\<lparr>console := console w @ [e]\<rparr>"

text \<open>
  One client call: the transport's outcome is taken from the script; a call that reaches
  the server is answered by \<open>srv\<close>, with a reply or with an error reply. The call and
  its success are logged.
\<close>

definition next_fault :: "world \<Rightarrow> js_error option" where
  "next_fault w = (case script w of Some e # rest \<Rightarrow> Some e | _ \<Rightarrow> None)"

text \<open>The transport fails none of the next \<open>n\<close> calls.\<close>

definition faultless :: "nat \<Rightarrow> world \<Rightarrow> bool" where
  "faultless n w = list_all (\<lambda>x. x = None) (take n (script w))"

definition call ::
  "command \<Rightarrow> (world \<Rightarrow> (js_error + 'r) \<times> world) \<Rightarrow> world \<Rightarrow> (js_error + 'r) \<times> world" where
  "call cmd srv w =
     (case next_fault w of
        Some e \<Rightarrow> (Inl e, w\<lparr>script := tl (script w), log := log w @ [(cmd, False)]\<rparr>)
      | None \<Rightarrow>
         (case srv (w\<lparr>script := tl (script w)\<rparr>) of
            (r, w') \<Rightarrow> (r, w'\<lparr>log := log w' @ [(cmd, \<not> isl r)]\<rparr>)))"

text \<open>An error reply of the server, as the client rejects with it.\<close>

definition ErrorReply :: "string \<Rightarrow> js_error" where
  "ErrorReply msg = JsError ''ErrorReply'' msg"

text \<open>The client refuses an argument that is not a string before it sends anything.\<close>

definition invalid_argument :: js_error where
  "invalid_argument = TypeError ''Invalid argument type''"

definition client_connect :: "world \<Rightarrow> (js_error + unit) \<times> world" where
  "client_connect = call CONNECT (\<lambda>w. (Inr (), w))"

definition client_disconnect :: "world \<Rightarrow> (js_error + unit) \<times> world" where
  "client_disconnect = call DISCONNECT (\<lambda>w. (Inr (), w))"

subsection \<open>Lists\<close>

text \<open>\<^verbatim>\<open>RPUSH key element\<close> appends at the tail and replies the new length.\<close>

definition client_RPUSH :: "string \<Rightarrow> jstext option \<Rightarrow> world \<Rightarrow> (js_error + nat) \<times> world" where
  "client_RPUSH key element =
     call (RPUSH key element) (\<lambda>w.
       case element of
         None \<Rightarrow> (Inl invalid_argument, w)
       | Some t \<Rightarrow>
           (Inr (Suc (length (lists w key))), w\<lparr>lists := (lists w)(key := lists w key @ [t])\<rparr>))"

text \<open>\<^verbatim>\<open>LPOP key\<close> removes and replies the head; the reply is \<^verbatim>\<open>null\<close> on an empty list.\<close>

definition client_LPOP :: "string \<Rightarrow> world \<Rightarrow> (js_error + jstext option) \<times> world" where
  "client_LPOP key =
     call (LPOP key) (\<lambda>w.
       case lists w key of
         [] \<Rightarrow> (Inr None, w)
       | t # ts \<Rightarrow> (Inr (Some t), w\<lparr>lists := (lists w)(key := ts)\<rparr>))"

definition client_LLEN :: "string \<Rightarrow> world \<Rightarrow> (js_error + nat) \<times> world" where
  "client_LLEN key = call (LLEN key) (\<lambda>w. (Inr (length (lists w key)), w))"

subsection \<open>Streams\<close>

definition digit :: "nat \<Rightarrow> char" where
  "digit d = ''0123456789'' ! d"

fun dec :: "nat \<Rightarrow> string" where
  "dec n = (if n < 10 then [digit n] else dec (n div 10) @ [digit (n mod 10)])"

declare dec.simps [simp del]

definition id_text :: "nat \<Rightarrow> string" where
  "id_text n = dec n @ ''-0''"

text \<open>
  A message of a reply, \<^verbatim>\<open>{id, message}\<close>: the ID and the fields of the entry. The reply
  of \<^verbatim>\<open>XAUTOCLAIM\<close> is \<^verbatim>\<open>{nextId, messages}\<close>, the reply of \<^verbatim>\<open>XREADGROUP\<close> is \<^verbatim>\<open>null\<close> or a
  list of \<^verbatim>\<open>{name, messages}\<close>, one per stream.
\<close>

type_synonym xmessage = "string \<times> (string \<times> jstext) list"
type_synonym autoclaim_reply = "string \<times> xmessage list"
type_synonym readgroup_reply = "(string \<times> xmessage list) list"

definition render :: "nat \<times> (string \<times> jstext) list \<Rightarrow> xmessage" where
  "render e = (id_text (fst e), snd e)"

definition BUSYGROUP :: js_error where
  "BUSYGROUP = ErrorReply ''BUSYGROUP Consumer Group name already exists''"

definition NOGROUP :: js_error where
  "NOGROUP = ErrorReply ''NOGROUP No such key or consumer group''"

text \<open>
  The wrappers pass the special IDs \<^verbatim>\<open>$\<close>, \<^verbatim>\<open>*\<close>, \<^verbatim>\<open>0\<close> and \<^verbatim>\<open>>\<close> and a minimum idle time of
  zero only; the server's replies to other arguments are outside the model, which
  answers them with this error.
\<close>

definition not_modelled :: js_error where
  "not_modelled = ErrorReply ''ERR argument outside the model''"

definition empty_stream :: xstream where
  "empty_stream = \<lparr>entries = [], top = 0, groups = (\<lambda>g. None)\<rparr>"

definition put_stream :: "string \<Rightarrow> xstream \<Rightarrow> world \<Rightarrow> world" where
  "put_stream key st w = w\<lparr>streams := (streams w)(key := Some st)\<rparr>"

definition put_group :: "string \<Rightarrow> xgroup \<Rightarrow> xstream \<Rightarrow> xstream" where
  "put_group grp g st = st\<lparr>groups := (groups st)(grp := Some g)\<rparr>"

text \<open>
  \<^verbatim>\<open>XGROUP CREATE key group $ MKSTREAM\<close>: a new group starts at the last ID of the stream
  with nothing pending; the stream is created when it is missing; a group that exists
  is left as it is and the reply is the \<^verbatim>\<open>BUSYGROUP\<close> error.
\<close>

definition client_XGROUP_CREATE ::
  "string \<Rightarrow> string \<Rightarrow> string \<Rightarrow> bool \<Rightarrow> world \<Rightarrow> (js_error + unit) \<times> world" where
  "client_XGROUP_CREATE key grp start mkstream =
     call (XGROUP_CREATE key grp start mkstream) (\<lambda>w.
       if start \<noteq> ''$'' then (Inl not_modelled, w)
       else
         (case streams w key of
            None \<Rightarrow>
              if mkstream then
                (Inr (), put_stream key
                   (put_group grp \<lparr>last_delivered = 0, pending = []\<rparr> empty_stream) w)
              else (Inl (ErrorReply ''ERR no such key''), w)
          | Some st \<Rightarrow>
              (case groups st grp of
                 Some g \<Rightarrow> (Inl BUSYGROUP, w)
               | None \<Rightarrow>
                   (Inr (), put_stream key
                      (put_group grp \<lparr>last_delivered = top st, pending = []\<rparr> st) w))))"

text \<open>
  \<^verbatim>\<open>XADD key * data text\<close> appends an entry under a fresh ID, greater than every ID the
  stream has had, and replies the ID.
\<close>

definition client_XADD ::
  "string \<Rightarrow> string \<Rightarrow> jstext option \<Rightarrow> world \<Rightarrow> (js_error + string) \<times> world" where
  "client_XADD key new_id data =
     call (XADD key new_id data) (\<lambda>w.
       case data of
         None \<Rightarrow> (Inl invalid_argument, w)
       | Some t \<Rightarrow>
           if new_id \<noteq> ''*'' then (Inl not_modelled, w)
           else
             (let st = (case streams w key of None \<Rightarrow> empty_stream | Some st \<Rightarrow> st);
                  n = Suc (top st)
              in (Inr (id_text n),
                  put_stream key (st\<lparr>entries := entries st @ [(n, [(''data'', t)])], top := n\<rparr>) w)))"

text \<open>
  The scan of \<^verbatim>\<open>XAUTOCLAIM\<close> with a minimum idle time of zero, from the start of the
  pending list: every pending entry qualifies, up to \<open>count\<close> of them are claimed for
  the consumer, and a pending entry whose entry has been deleted from the stream is
  dropped from the list. The result is the claimed entries, the scanned part of the
  list as it is afterwards, and the part not scanned.
\<close>

fun autoclaim ::
  "nat \<Rightarrow> (nat \<times> (string \<times> jstext) list) list \<Rightarrow> string \<Rightarrow> (nat \<times> string) list \<Rightarrow>
   (nat \<times> (string \<times> jstext) list) list \<times> (nat \<times> string) list \<times> (nat \<times> string) list" where
  "autoclaim 0 es c ps = ([], [], ps)"
| "autoclaim (Suc n) es c [] = ([], [], [])"
| "autoclaim (Suc n) es c ((i, owner) # ps) =
     (case map_of es i of
        None \<Rightarrow> autoclaim (Suc n) es c ps
      | Some fs \<Rightarrow>
          (case autoclaim n es c ps of
             (claimed, scanned, rest) \<Rightarrow> ((i, fs) # claimed, (i, c) # scanned, rest)))"

definition client_XAUTOCLAIM ::
  "string \<Rightarrow> string \<Rightarrow> string \<Rightarrow> nat \<Rightarrow> string \<Rightarrow> nat \<Rightarrow> world \<Rightarrow>
   (js_error + autoclaim_reply option) \<times> world" where
  "client_XAUTOCLAIM key grp consumer min_idle start count =
     call (XAUTOCLAIM key grp consumer min_idle start count) (\<lambda>w.
       if min_idle \<noteq> 0 \<or> start \<noteq> ''0'' then (Inl not_modelled, w)
       else
         (case streams w key of
            None \<Rightarrow> (Inl NOGROUP, w)
          | Some st \<Rightarrow>
              (case groups st grp of
                 None \<Rightarrow> (Inl NOGROUP, w)
               | Some g \<Rightarrow>
                   (case autoclaim count (entries st) consumer (pending g) of
                      (claimed, scanned, rest) \<Rightarrow>
                        (Inr (Some (case rest of [] \<Rightarrow> ''0-0'' | p # ps \<Rightarrow> id_text (fst p),
                                    map render claimed)),
                         put_stream key (put_group grp (g\<lparr>pending := scanned @ rest\<rparr>) st) w)))))"

text \<open>
  \<^verbatim>\<open>XREADGROUP GROUP group consumer COUNT count BLOCK ms STREAMS key >\<close>: the entries after
  the group's last-delivered ID, up to \<open>count\<close> of them, become pending for the consumer
  and the last-delivered ID moves to the last of them. When there is none the call
  blocks; no other client of the model adds an entry meanwhile, so it times out and the
  reply is \<^verbatim>\<open>null\<close>.
\<close>

definition client_XREADGROUP ::
  "string \<Rightarrow> string \<Rightarrow> string \<Rightarrow> string \<Rightarrow> nat \<Rightarrow> nat \<Rightarrow> world \<Rightarrow>
   (js_error + readgroup_reply option) \<times> world" where
  "client_XREADGROUP grp consumer key start block count =
     call (XREADGROUP grp consumer key start block count) (\<lambda>w.
       if start \<noteq> ''>'' then (Inl not_modelled, w)
       else
         (case streams w key of
            None \<Rightarrow> (Inl NOGROUP, w)
          | Some st \<Rightarrow>
              (case groups st grp of
                 None \<Rightarrow> (Inl NOGROUP, w)
               | Some g \<Rightarrow>
                   (case take count (filter (\<lambda>e. last_delivered g < fst e) (entries st)) of
                      [] \<Rightarrow> (Inr None, w)
                    | d # ds \<Rightarrow>
                        (Inr (Some [(key, map render (d # ds))]),
                         put_stream key
                           (put_group grp
                              (g\<lparr>last_delivered := fst (last (d # ds)),
                                 pending := pending g @ map (\<lambda>e. (fst e, consumer)) (d # ds)\<rparr>)
                              st) w)))))"

text \<open>
  \<^verbatim>\<open>XACK key group id\<close> removes the entry from the group's pending list and replies how
  many it removed.
\<close>

definition client_XACK ::
  "string \<Rightarrow> string \<Rightarrow> string \<Rightarrow> world \<Rightarrow> (js_error + nat) \<times> world" where
  "client_XACK key grp entry_id =
     call (XACK key grp entry_id) (\<lambda>w.
       case streams w key of
         None \<Rightarrow> (Inr 0, w)
       | Some st \<Rightarrow>
           (case groups st grp of
              None \<Rightarrow> (Inr 0, w)
            | Some g \<Rightarrow>
                (Inr (length (filter (\<lambda>p. id_text (fst p) = entry_id) (pending g))),
                 put_stream key
                   (put_group grp
                      (g\<lparr>pending := filter (\<lambda>p. id_text (fst p) \<noteq> entry_id) (pending g)\<rparr>)
                      st) w)))"

text \<open>
  \<^verbatim>\<open>XDEL key id ...\<close> removes the entries from the stream itself and replies how many it
  removed; the command needs at least one ID.
\<close>

definition client_XDEL :: "string \<Rightarrow> string list \<Rightarrow> world \<Rightarrow> (js_error + nat) \<times> world" where
  "client_XDEL key ids =
     call (XDEL key ids) (\<lambda>w.
       if ids = [] then (Inl (ErrorReply ''ERR wrong number of arguments for xdel command''), w)
       else
         (case streams w key of
            None \<Rightarrow> (Inr 0, w)
          | Some st \<Rightarrow>
              (Inr (length (filter (\<lambda>e. id_text (fst e) \<in> set ids) (entries st))),
               put_stream key
                 (st\<lparr>entries := filter (\<lambda>e. id_text (fst e) \<notin> set ids) (entries st)\<rparr>) w)))"

definition client_XLEN :: "string \<Rightarrow> world \<Rightarrow> (js_error + nat) \<times> world" where
  "client_XLEN key =
     call (XLEN key) (\<lambda>w.
       (Inr (case streams w key of None \<Rightarrow> 0 | Some st \<Rightarrow> length (entries st)), w))"

section \<open>MessageQueue\<close>

record message_queue =
  q_url :: string
  queueName :: string

definition MessageQueue_new :: "string \<Rightarrow> string \<Rightarrow> message_queue" where
  "MessageQueue_new name url = \<lparr>q_url = url, queueName = ''queue:'' @ name\<rparr>"

text \<open>
  The errors the methods of the queue throw: each is \<^verbatim>\<open>Error(message)\<close> with the message
  of the source; the constants only name them.
\<close>

definition QueueConnectionError :: js_error where
  "QueueConnectionError = Error ''Failed to connect to the message stream''"

definition QueueDisconnectError :: js_error where
  "QueueDisconnectError = Error ''Failed to disconnect from queue''"

definition QueueWriteError :: "message_queue \<Rightarrow> js_error" where
  "QueueWriteError q = Error (''Failed to push data to queue ('' @ queueName q @ '')'')"

definition QueueReadError :: "message_queue \<Rightarrow> js_error" where
  "QueueReadError q = Error (''Failed to pop from queue ('' @ queueName q @ '')'')"

definition QueueQueryError :: "message_queue \<Rightarrow> js_error" where
  "QueueQueryError q = Error (''Failed to retrieve queue length ('' @ queueName q @ '')'')"

definition queue_connect :: "message_queue \<Rightarrow> world \<Rightarrow> (js_error + unit) \<times> world" where
  "queue_connect q w =
     (case client_connect w of
        (Inl e, w') \<Rightarrow> (Inl QueueConnectionError, console_error e w')
      | (Inr u, w') \<Rightarrow> (Inr (), w'))"

definition queue_disconnect :: "message_queue \<Rightarrow> world \<Rightarrow> (js_error + unit) \<times> world" where
  "queue_disconnect q w =
     (case client_disconnect w of
        (Inl e, w') \<Rightarrow> (Inl QueueDisconnectError, console_error e w')
      | (Inr u, w') \<Rightarrow> (Inr (), w'))"

definition push :: "message_queue \<Rightarrow> jsval \<Rightarrow> world \<Rightarrow> (js_error + unit) \<times> world" where
  "push q data w =
     (case client_RPUSH (queueName q) (JSON_stringify data) w of
        (Inl e, w') \<Rightarrow> (Inl (QueueWriteError q), console_error e w')
      | (Inr n, w') \<Rightarrow> (Inr (), w'))"

text \<open>
  \<^verbatim>\<open>pop\<close>: the reply of \<^verbatim>\<open>LPOP\<close>, a string or \<^verbatim>\<open>null\<close>, goes to \<^verbatim>\<open>JSON.parse\<close> inside the
  \<^verbatim>\<open>try\<close>, so a failure to parse is caught like a failure of the call.
\<close>

definition pop :: "message_queue \<Rightarrow> world \<Rightarrow> (js_error + jsval) \<times> world" where
  "pop q w =
     (case client_LPOP (queueName q) w of
        (Inl e, w') \<Rightarrow> (Inl (QueueReadError q), console_error e w')
      | (Inr d, w') \<Rightarrow>
          (case JSON_parse (case d of None \<Rightarrow> ArgNull | Some t \<Rightarrow> ArgString t) of
             Inl e \<Rightarrow> (Inl (QueueReadError q), console_error e w')
           | Inr v \<Rightarrow> (Inr v, w')))"

definition size_queue :: "message_queue \<Rightarrow> world \<Rightarrow> (js_error + nat) \<times> world" where
  "size_queue q w =
     (case client_LLEN (queueName q) w of
        (Inl e, w') \<Rightarrow> (Inl (QueueQueryError q), console_error e w')
      | (Inr n, w') \<Rightarrow> (Inr n, w'))"

section \<open>MessageStream\<close>

definition MAX_PROCESSED_IDS :: nat where
  "MAX_PROCESSED_IDS = 10000"

definition NoMessageFoundError :: js_error where
  "NoMessageFoundError = JsError ''NoMessageInStream'' ''No message found''"

text \<open>
  The fields of an instance. \<open>processedMessageIds\<close> is a JavaScript \<^verbatim>\<open>Set\<close> of strings: its
  members in insertion order, each once.
\<close>

record message_stream =
  s_url :: string
  streamName :: string
  consumerGroup :: string
  consumerId :: string
  processedMessageIds :: "string list"

definition set_add :: "string list \<Rightarrow> string \<Rightarrow> string list" where
  "set_add xs x = (if x \<in> set xs then xs else xs @ [x])"

text \<open>
  The constructor; \<open>url\<close> is \<open>None\<close> when the argument is left out and \<open>pm_id\<close> is the
  environment variable of that name, \<open>None\<close> when it is not set.
\<close>

definition MessageStream_new :: "string \<Rightarrow> string option \<Rightarrow> string option \<Rightarrow> message_stream" where
  "MessageStream_new name url pm_id =
     \<lparr>s_url = (case url of None \<Rightarrow> ''redis://127.0.0.1:6379'' | Some u \<Rightarrow> u),
      streamName = ''stream:'' @ name,
      consumerGroup = name @ '':consumer:group'',
      consumerId = (case pm_id of None \<Rightarrow> ''0'' | Some c \<Rightarrow> c),
      processedMessageIds = []\<rparr>"

text \<open>The errors the methods of the stream throw, again \<^verbatim>\<open>Error(message)\<close> each.\<close>

definition StreamConnectError :: "message_stream \<Rightarrow> js_error" where
  "StreamConnectError s = Error (''Failed to connect to the stream ('' @ streamName s @ '')'')"

definition StreamDisconnectError :: "message_stream \<Rightarrow> js_error" where
  "StreamDisconnectError s =
     Error (''Failed to disconnect from the stream ('' @ streamName s @ '')'')"

definition StreamWriteError :: "message_stream \<Rightarrow> js_error" where
  "StreamWriteError s = Error (''Failed to add message to stream ('' @ streamName s @ '')'')"

definition StreamPurgeError :: "message_stream \<Rightarrow> js_error" where
  "StreamPurgeError s =
     Error (''Failed to delete processed messages ('' @ streamName s @ '' '' @ consumerGroup s
            @ '' '' @ consumerId s @ '')'')"

definition StreamQueryError :: "message_stream \<Rightarrow> js_error" where
  "StreamQueryError s = Error (''Failed to get length of stream ('' @ streamName s @ '')'')"

text \<open>
  \<^verbatim>\<open>connect\<close>: one \<^verbatim>\<open>try\<close> holds both calls, and its \<^verbatim>\<open>catch\<close> tells the errors apart by
  their message alone.
\<close>

definition connect_catch :: "message_stream \<Rightarrow> js_error \<Rightarrow> world \<Rightarrow> (js_error + unit) \<times> world" where
  "connect_catch s e w =
     (if err_message e \<noteq> ''BUSYGROUP Consumer Group name already exists''
      then (Inl (StreamConnectError s), console_error e w)
      else (Inr (), w))"

definition connect :: "message_stream \<Rightarrow> world \<Rightarrow> (js_error + unit) \<times> world" where
  "connect s w =
     (case client_connect w of
        (Inl e, w1) \<Rightarrow> connect_catch s e w1
      | (Inr u, w1) \<Rightarrow>
          (case client_XGROUP_CREATE (streamName s) (consumerGroup s) ''$'' True w1 of
             (Inl e, w2) \<Rightarrow> connect_catch s e w2
           | (Inr u', w2) \<Rightarrow> (Inr (), w2)))"

definition deleteProcessedMessages ::
  "message_stream \<Rightarrow> world \<Rightarrow> (js_error + unit) \<times> message_stream \<times> world" where
  "deleteProcessedMessages s w =
     (if length (processedMessageIds s) > 0 then
        (case client_XDEL (streamName s) (processedMessageIds s) w of
           (Inl e, w') \<Rightarrow> (Inl (StreamPurgeError s), s, console_error e w')
         | (Inr n, w') \<Rightarrow> (Inr (), s\<lparr>processedMessageIds := []\<rparr>, w'))
      else (Inr (), s, w))"

text \<open>
  \<^verbatim>\<open>disconnect\<close> is two blocks. The first (lines 57 to 61) flushes the processed IDs and
  only prints a failure; the second closes the connection.
\<close>

definition disconnect_flush :: "message_stream \<Rightarrow> world \<Rightarrow> message_stream \<times> world" where
  "disconnect_flush s w =
     (case deleteProcessedMessages s w of
        (Inl e, s', w') \<Rightarrow> (s', console_error e w')
      | (Inr u, s', w') \<Rightarrow> (s', w'))"

definition disconnect ::
  "message_stream \<Rightarrow> world \<Rightarrow> (js_error + unit) \<times> message_stream \<times> world" where
  "disconnect s w =
     (case disconnect_flush s w of
        (s1, w1) \<Rightarrow>
          (case client_disconnect w1 of
             (Inl e, w2) \<Rightarrow> (Inl (StreamDisconnectError s1), s1, console_error e w2)
           | (Inr u, w2) \<Rightarrow> (Inr (), s1, w2)))"

definition addMessage :: "message_stream \<Rightarrow> jsval \<Rightarrow> world \<Rightarrow> (js_error + string) \<times> world" where
  "addMessage s data w =
     (case client_XADD (streamName s) ''*'' (JSON_stringify data) w of
        (Inl e, w') \<Rightarrow> (Inl (StreamWriteError s), console_error e w')
      | (Inr messageId, w') \<Rightarrow> (Inr messageId, w'))"

text \<open>
  \<^verbatim>\<open>.message.data\<close> of a message: the field \<^verbatim>\<open>data\<close> of the entry, \<^verbatim>\<open>undefined\<close> when the
  entry has no such field.
\<close>

definition data_of :: "xmessage \<Rightarrow> parse_arg" where
  "data_of m = (case map_of (snd m) ''data'' of None \<Rightarrow> ArgUndefined | Some t \<Rightarrow> ArgString t)"

text \<open>
  \<^verbatim>\<open>getFailedMessage\<close>. The result \<^verbatim>\<open>{id, message}\<close> is a pair; an \<open>id\<close> of \<open>None\<close> and a
  \<open>message\<close> of \<open>JUndefined\<close> are the locals never assigned. The option \<^verbatim>\<open>BLOCK\<close> is not an
  option of the command and the client does not send it.
\<close>

definition getFailedMessage ::
  "message_stream \<Rightarrow> world \<Rightarrow> (js_error + string option \<times> jsval) \<times> world" where
  "getFailedMessage s w =
     (case client_XAUTOCLAIM (streamName s) (consumerGroup s) (consumerId s) 0 ''0'' 1 w of
        (Inl e, w') \<Rightarrow> (Inl e, console_error e w')
      | (Inr None, w') \<Rightarrow> (Inr (None, JUndefined), w')
      | (Inr (Some (nextId, [])), w') \<Rightarrow> (Inr (None, JUndefined), w')
      | (Inr (Some (nextId, m # ms)), w') \<Rightarrow>
          (case JSON_parse (data_of m) of
             Inl e \<Rightarrow> (Inl e, console_error e w')
           | Inr v \<Rightarrow> (Inr (Some (fst m), v), w')))"

text \<open>
  \<^verbatim>\<open>consumeMessage\<close> is three blocks in a row, each with a \<^verbatim>\<open>catch\<close> that only prints;
  the locals \<open>id\<close> and \<open>message\<close> go from one to the next.

  The first block (lines 130 to 136) asks for a failed message.
\<close>

definition consume_failed :: "message_stream \<Rightarrow> world \<Rightarrow> (string option \<times> jsval) \<times> world" where
  "consume_failed s w =
     (case getFailedMessage s w of
        (Inl e, w') \<Rightarrow> ((None, JUndefined), console_error e w')
      | (Inr messageData, w') \<Rightarrow> (messageData, w'))"

text \<open>
  The second block (lines 138 to 156) runs when \<^verbatim>\<open>!message\<close>. An empty reply throws
  \<^verbatim>\<open>NoMessageFoundError\<close> into the block's own \<^verbatim>\<open>catch\<close>; \<open>id\<close> is assigned before the
  payload is parsed, so it stays assigned when the parse throws.
\<close>

definition consume_new ::
  "message_stream \<Rightarrow> string option \<times> jsval \<Rightarrow> world \<Rightarrow> (string option \<times> jsval) \<times> world" where
  "consume_new s im w =
     (if \<not> truthy (snd im) then
        (case client_XREADGROUP (consumerGroup s) (consumerId s) (streamName s) ''>'' 2000 1 w of
           (Inl e, w') \<Rightarrow> (im, console_error e w')
         | (Inr None, w') \<Rightarrow> (im, console_error NoMessageFoundError w')
         | (Inr (Some []), w') \<Rightarrow> (im, console_error NoMessageFoundError w')
         | (Inr (Some ((name, []) # rs)), w') \<Rightarrow>
             (im, console_error (TypeError ''Cannot read properties of undefined'') w')
         | (Inr (Some ((name, m # ms) # rs)), w') \<Rightarrow>
             (case JSON_parse (data_of m) of
                Inl e \<Rightarrow> ((Some (fst m), snd im), console_error e w')
              | Inr v \<Rightarrow> ((Some (fst m), v), w')))
      else (im, w))"

text \<open>
  The third block (lines 158 to 170) runs when \<^verbatim>\<open>id\<close> is truthy: a string that is not
  empty.
\<close>

definition consume_ack ::
  "message_stream \<Rightarrow> string option \<Rightarrow> world \<Rightarrow> message_stream \<times> world" where
  "consume_ack s i w =
     (case i of
        None \<Rightarrow> (s, w)
      | Some entry_id \<Rightarrow>
          if entry_id = [] then (s, w)
          else
            (case client_XACK (streamName s) (consumerGroup s) entry_id w of
               (Inl e, w') \<Rightarrow> (s, console_error e w')
             | (Inr n, w') \<Rightarrow>
                 (let s1 = s\<lparr>processedMessageIds := set_add (processedMessageIds s) entry_id\<rparr>
                  in if length (processedMessageIds s1) > MAX_PROCESSED_IDS then
                       (case deleteProcessedMessages s1 w' of
                          (Inl e, s2, w2) \<Rightarrow> (s2, console_error e w2)
                        | (Inr u, s2, w2) \<Rightarrow> (s2, w2))
                     else (s1, w'))))"

definition consumeMessage ::
  "message_stream \<Rightarrow> world \<Rightarrow> (js_error + string option \<times> jsval) \<times> message_stream \<times> world" where
  "consumeMessage s w =
     (case consume_failed s w of
        (im1, w1) \<Rightarrow>
          (case consume_new s im1 w1 of
             (im2, w2) \<Rightarrow>
               (case consume_ack s (fst im2) w2 of
                  (s3, w3) \<Rightarrow> (Inr im2, s3, w3))))"

definition length_stream :: "message_stream \<Rightarrow> world \<Rightarrow> (js_error + nat) \<times> world" where
  "length_stream s w =
     (case client_XLEN (streamName s) w of
        (Inl e, w') \<Rightarrow> (Inl (StreamQueryError s), console_error e w')
      | (Inr n, w') \<Rightarrow> (Inr n, w'))"

section \<open>Runs, histories and the values that survive JSON\<close>

text \<open>
  The values that \<^verbatim>\<open>JSON.stringify\<close> writes without loss: \<^verbatim>\<open>null\<close>, the booleans, the
  finite numbers, the strings, and the arrays and objects made of such values, an
  object having each key once.
\<close>

fun json_value :: "jsval \<Rightarrow> bool"
  and json_values :: "jsval list \<Rightarrow> bool"
  and json_members :: "(string \<times> jsval) list \<Rightarrow> bool"
where
  "json_value JUndefined = False"
| "json_value JNull = True"
| "json_value (JBool b) = True"
| "json_value (JNum n) = (case n of Fin r \<Rightarrow> True | _ \<Rightarrow> False)"
| "json_value (JStr s) = True"
| "json_value (JArr vs) = json_values vs"
| "json_value (JObj kvs) = (distinct (map fst kvs) \<and> json_members kvs)"
| "json_values [] = True"
| "json_values (v # vs) = (json_value v \<and> json_values vs)"
| "json_members [] = True"
| "json_members ((k, v) # kvs) = (json_value v \<and> json_members kvs)"

text \<open>
  What a history says of a stream: the IDs acknowledged with success for a group, in
  order, and the bulk deletes sent, each with its IDs and its success.
\<close>

fun ack_of :: "string \<Rightarrow> string \<Rightarrow> command \<times> bool \<Rightarrow> string list" where
  "ack_of key grp (XACK k g i, ok) = (if ok \<and> k = key \<and> g = grp then [i] else [])"
| "ack_of key grp other = []"

definition acked :: "string \<Rightarrow> string \<Rightarrow> (command \<times> bool) list \<Rightarrow> string list" where
  "acked key grp lg = concat (map (ack_of key grp) lg)"

fun purge_of :: "string \<Rightarrow> command \<times> bool \<Rightarrow> (string list \<times> bool) list" where
  "purge_of key (XDEL k ids, ok) = (if k = key then [(ids, ok)] else [])"
| "purge_of key other = []"

definition purges :: "string \<Rightarrow> (command \<times> bool) list \<Rightarrow> (string list \<times> bool) list" where
  "purges key lg = concat (map (purge_of key) lg)"

text \<open>The part of the history that an operation added: the calls after the first \<open>n\<close>.\<close>

definition since :: "world \<Rightarrow> world \<Rightarrow> (command \<times> bool) list" where
  "since w w' = drop (length (log w)) (log w')"

text \<open>\<open>n\<close> calls of \<^verbatim>\<open>consumeMessage\<close> in a row, on one instance.\<close>

fun consume_run :: "nat \<Rightarrow> message_stream \<Rightarrow> world \<Rightarrow> message_stream \<times> world" where
  "consume_run 0 s w = (s, w)"
| "consume_run (Suc n) s w =
     (case consumeMessage s w of (r, s', w') \<Rightarrow> consume_run n s' w')"

text \<open>The operations of a stream, and the instance and the world after one of them.\<close>

datatype stream_op =
    Connect
  | Disconnect
  | AddMessage jsval
  | GetFailedMessage
  | ConsumeMessage
  | DeleteProcessedMessages
  | Length

fun run_op :: "stream_op \<Rightarrow> message_stream \<Rightarrow> world \<Rightarrow> message_stream \<times> world" where
  "run_op Connect s w = (s, snd (connect s w))"
| "run_op Disconnect s w = snd (disconnect s w)"
| "run_op (AddMessage v) s w = (s, snd (addMessage s v w))"
| "run_op GetFailedMessage s w = (s, snd (getFailedMessage s w))"
| "run_op ConsumeMessage s w = snd (consumeMessage s w)"
| "run_op DeleteProcessedMessages s w = snd (deleteProcessedMessages s w)"
| "run_op Length s w = (s, snd (length_stream s w))"

text \<open>Every ID in the buffer has been acknowledged with success by a call in the history.\<close>

definition buffer_acked :: "message_stream \<Rightarrow> world \<Rightarrow> bool" where
  "buffer_acked s w =
     (set (processedMessageIds s) \<subseteq> set (acked (streamName s) (consumerGroup s) (log w)))"

text \<open>The pending list of a group, and the wire IDs of the entries pending for a consumer.\<close>

definition pending_of :: "string \<Rightarrow> string \<Rightarrow> world \<Rightarrow> (nat \<times> string) list" where
  "pending_of key grp w =
     (case streams w key of
        None \<Rightarrow> []
      | Some st \<Rightarrow> (case groups st grp of None \<Rightarrow> [] | Some g \<Rightarrow> pending g))"

definition pending_for :: "string \<Rightarrow> string \<Rightarrow> string \<Rightarrow> world \<Rightarrow> string list" where
  "pending_for key grp consumer w =
     map (\<lambda>p. id_text (fst p)) (filter (\<lambda>p. snd p = consumer) (pending_of key grp w))"

text \<open>
  The oldest pending entry of a group whose entry is still in the stream, as a message
  of a reply: the one entry that \<^verbatim>\<open>XAUTOCLAIM\<close> with \<^verbatim>\<open>COUNT 1\<close> claims.
\<close>

definition oldest_pending :: "string \<Rightarrow> string \<Rightarrow> world \<Rightarrow> xmessage option" where
  "oldest_pending key grp w =
     (case streams w key of
        None \<Rightarrow> None
      | Some st \<Rightarrow>
          (case filter (\<lambda>p. map_of (entries st) (fst p) \<noteq> None) (pending_of key grp w) of
             [] \<Rightarrow> None
           | p # ps \<Rightarrow> Some (id_text (fst p), the (map_of (entries st) (fst p)))))"

text \<open>The cursor of a group: its last-delivered ID.\<close>

definition cursor_of :: "string \<Rightarrow> string \<Rightarrow> world \<Rightarrow> nat option" where
  "cursor_of key grp w =
     (case streams w key of
        None \<Rightarrow> None
      | Some st \<Rightarrow> map_option last_delivered (groups st grp))"

section \<open>Example instances and worlds\<close>

definition jobs_queue :: message_queue where
  "jobs_queue = MessageQueue_new ''jobs'' ''redis://127.0.0.1:6379''"

definition jobs :: message_stream where
  "jobs = MessageStream_new ''jobs'' None None"

definition socket_closed :: js_error where
  "socket_closed = JsError ''SocketClosedUnexpectedlyError'' ''Socket closed unexpectedly''"

text \<open>A server with no key, and a transport that never fails.\<close>

definition empty_world :: world where
  "empty_world =
     \<lparr>lists = (\<lambda>k. []), streams = (\<lambda>k. None), script = [], log = [], console = []\<rparr>"

text \<open>
  The stream of \<open>jobs\<close> with \<open>n\<close> entries, of IDs \<open>1-0\<close> to \<open>n-0\<close>, each the JSON text
  of the string \<open>job\<close>, and its group with the cursor at \<open>k\<close> and the entries \<open>ps\<close> pending.
\<close>

definition backlog :: "nat \<Rightarrow> (nat \<times> (string \<times> jstext) list) list" where
  "backlog n = map (\<lambda>i. (i, [(''data'', Doc (JsonStr ''job''))])) [1..<Suc n]"

definition jobs_world ::
  "(nat \<times> (string \<times> jstext) list) list \<Rightarrow> nat \<Rightarrow> (nat \<times> string) list \<Rightarrow>
   js_error option list \<Rightarrow> world" where
  "jobs_world es k ps scr =
     \<lparr>lists = (\<lambda>key. []),
      streams = (\<lambda>key. None)
        (''stream:jobs'' := Some
           \<lparr>entries = es, top = length es,
            groups = (\<lambda>g. None)
              (''jobs:consumer:group'' := Some \<lparr>last_delivered = k, pending = ps\<rparr>)\<rparr>),
      script = scr, log = [], console = []\<rparr>"


text \<open>
  The stream of \<open>jobs\<close> with two entries: \<open>1-0\<close>, whose payload is the number 0, was
  delivered to consumer \<open>0\<close> and never acknowledged; \<open>2-0\<close> has not been delivered.
\<close>

definition shadowed_world :: world where
  "shadowed_world =
     jobs_world [(1, [(''data'', Doc (JsonNum 0))]), (2, [(''data'', Doc (JsonStr ''new''))])]
       1 [(1, ''0'')] []"

text \<open>
  The IDs \<open>1-0\<close> to \<open>k-0\<close>, and the history of \<open>k\<close> calls of \<^verbatim>\<open>consumeMessage\<close> that
  each find nothing to reclaim, read the next entry and acknowledge it, the first of
  them reading the entry after \<open>a-0\<close>.
\<close>

definition job_ids :: "nat \<Rightarrow> string list" where
  "job_ids k = map id_text [1..<Suc k]"

definition reads_log :: "nat \<Rightarrow> nat \<Rightarrow> (command \<times> bool) list" where
  "reads_log a k =
     concat (map (\<lambda>i.
       [(XAUTOCLAIM ''stream:jobs'' ''jobs:consumer:group'' ''0'' 0 ''0'' 1, True),
        (XREADGROUP ''jobs:consumer:group'' ''0'' ''stream:jobs'' ''>'' 2000 1, True),
        (XACK ''stream:jobs'' ''jobs:consumer:group'' (id_text (Suc i)), True)]) [a..<a + k])"

text \<open>
  The world of a run across the mark: the stream holds one entry more than the mark,
  none delivered yet, and the transport lets through the three calls of each of as many
  \<^verbatim>\<open>consumeMessage\<close> calls; \<open>rest\<close> is its outcome for the calls after them.
\<close>

definition full_backlog :: "js_error option list \<Rightarrow> world" where
  "full_backlog rest =
     jobs_world (backlog (MAX_PROCESSED_IDS + 1)) 0 []
       (replicate (3 * (MAX_PROCESSED_IDS + 1)) None @ rest)"

section \<open>Facts about the client\<close>

text \<open>
  A call that the transport fails rejects with the transport's error and leaves the
  server as it was; every call adds one line to the history, takes one outcome from the
  script and prints nothing.
\<close>

lemma call_fault:
  "next_fault w = Some e \<Longrightarrow>
   call cmd srv w = (Inl e, w\<lparr>script := tl (script w), log := log w @ [(cmd, False)]\<rparr>)"
  by (simp add: call_def)

lemma call_frame:
  assumes "\<And>w0 r0 w1. srv w0 = (r0, w1) \<Longrightarrow>
             log w1 = log w0 \<and> script w1 = script w0 \<and> console w1 = console w0"
    and "call cmd srv w = (r, w')"
  shows "log w' = log w @ [(cmd, \<not> isl r)] \<and> script w' = tl (script w) \<and> console w' = console w"
proof (cases "next_fault w")
  case None
  obtain r0 w1 where s: "srv (w\<lparr>script := tl (script w)\<rparr>) = (r0, w1)"
    by (cases "srv (w\<lparr>script := tl (script w)\<rparr>)")
  from assms(1)[OF s] assms(2) None s show ?thesis
    by (auto simp: call_def)
next
  case (Some e)
  with assms(2) show ?thesis by (auto simp: call_def)
qed

lemma JSON_parse_Inl_iff:
  "JSON_parse a = Inl e \<longleftrightarrow> e = SyntaxError \<and> (a = ArgUndefined \<or> a = ArgString Malformed)"
  by (cases a rule: JSON_parse.cases) auto

lemma connect_frame:
  "client_connect w = (r, w') \<Longrightarrow>
   log w' = log w @ [(CONNECT, \<not> isl r)] \<and> script w' = tl (script w) \<and> console w' = console w"
  unfolding client_connect_def by (erule call_frame[rotated]) auto

lemma disconnect_frame:
  "client_disconnect w = (r, w') \<Longrightarrow>
   log w' = log w @ [(DISCONNECT, \<not> isl r)] \<and> script w' = tl (script w) \<and> console w' = console w"
  unfolding client_disconnect_def by (erule call_frame[rotated]) auto

lemma RPUSH_frame:
  "client_RPUSH key x w = (r, w') \<Longrightarrow>
   log w' = log w @ [(RPUSH key x, \<not> isl r)] \<and> script w' = tl (script w) \<and> console w' = console w"
  unfolding client_RPUSH_def
  by (erule call_frame[rotated]) (auto split: option.splits)

lemma LPOP_frame:
  "client_LPOP key w = (r, w') \<Longrightarrow>
   log w' = log w @ [(LPOP key, \<not> isl r)] \<and> script w' = tl (script w) \<and> console w' = console w"
  unfolding client_LPOP_def
  by (erule call_frame[rotated]) (auto split: list.splits)

lemma LLEN_frame:
  "client_LLEN key w = (r, w') \<Longrightarrow>
   log w' = log w @ [(LLEN key, \<not> isl r)] \<and> script w' = tl (script w) \<and> console w' = console w"
  unfolding client_LLEN_def by (erule call_frame[rotated]) auto

lemma put_stream_frame [simp]:
  "log (put_stream key st w) = log w" "script (put_stream key st w) = script w"
  "console (put_stream key st w) = console w" "lists (put_stream key st w) = lists w"
  "streams (put_stream key st w) = (streams w)(key := Some st)"
  by (simp_all add: put_stream_def)

lemma XGROUP_CREATE_frame:
  "client_XGROUP_CREATE key grp start mk w = (r, w') \<Longrightarrow>
   log w' = log w @ [(XGROUP_CREATE key grp start mk, \<not> isl r)] \<and> script w' = tl (script w) \<and> console w' = console w"
  unfolding client_XGROUP_CREATE_def
  by (erule call_frame[rotated]) (auto split: option.splits if_splits)

lemma XADD_frame:
  "client_XADD key i d w = (r, w') \<Longrightarrow>
   log w' = log w @ [(XADD key i d, \<not> isl r)] \<and> script w' = tl (script w) \<and> console w' = console w"
  unfolding client_XADD_def
  by (erule call_frame[rotated]) (auto split: option.splits if_splits simp: Let_def)

lemma XAUTOCLAIM_frame:
  "client_XAUTOCLAIM key grp c mi st n w = (r, w') \<Longrightarrow>
   log w' = log w @ [(XAUTOCLAIM key grp c mi st n, \<not> isl r)] \<and> script w' = tl (script w) \<and> console w' = console w"
  unfolding client_XAUTOCLAIM_def
  by (erule call_frame[rotated]) (auto split: option.splits if_splits prod.splits)

lemma XREADGROUP_frame:
  "client_XREADGROUP grp c key st b n w = (r, w') \<Longrightarrow>
   log w' = log w @ [(XREADGROUP grp c key st b n, \<not> isl r)] \<and> script w' = tl (script w) \<and> console w' = console w"
  unfolding client_XREADGROUP_def
  by (erule call_frame[rotated]) (auto split: option.splits if_splits list.splits)

lemma XACK_frame:
  "client_XACK key grp i w = (r, w') \<Longrightarrow>
   log w' = log w @ [(XACK key grp i, \<not> isl r)] \<and> script w' = tl (script w) \<and> console w' = console w"
  unfolding client_XACK_def
  by (erule call_frame[rotated]) (auto split: option.splits if_splits)

lemma XDEL_frame:
  "client_XDEL key ids w = (r, w') \<Longrightarrow>
   log w' = log w @ [(XDEL key ids, \<not> isl r)] \<and> script w' = tl (script w) \<and> console w' = console w"
  unfolding client_XDEL_def
  by (erule call_frame[rotated]) (auto split: option.splits if_splits)

lemma XLEN_frame:
  "client_XLEN key w = (r, w') \<Longrightarrow>
   log w' = log w @ [(XLEN key, \<not> isl r)] \<and> script w' = tl (script w) \<and> console w' = console w"
  unfolding client_XLEN_def by (erule call_frame[rotated]) auto


lemma faultless_Suc:
  "faultless (Suc n) w \<Longrightarrow> next_fault w = None"
  by (cases "script w") (auto simp: faultless_def next_fault_def split: option.splits)

lemma faultless_tl:
  "faultless (Suc n) w \<Longrightarrow> script w' = tl (script w) \<Longrightarrow> faultless n w'"
  by (cases "script w") (auto simp: faultless_def)

section \<open>MessageQueue: pop, and push followed by pop\<close>

lemma mk_object_distinct:
  "distinct (map fst (acc @ kvs)) \<Longrightarrow> mk_object acc kvs = acc @ kvs"
proof (induction kvs arbitrary: acc)
  case Nil
  then show ?case by simp
next
  case (Cons kv kvs)
  obtain k v where kv: "kv = (k, v)" by (cases kv)
  have fresh: "k \<notin> fst ` set acc" using Cons.prems kv by auto
  have "set_prop acc k v = acc @ [(k, v)]" using fresh
    by (induction acc) auto
  with Cons kv show ?case by simp
qed

lemma json_roundtrip:
  "json_value v \<Longrightarrow> (\<exists>j. to_json v = Some j \<and> of_json j = v)"
  "json_values vs \<Longrightarrow> of_json_elems (to_json_elems vs) = vs"
  "json_members kvs \<Longrightarrow>
     of_json_props (to_json_props kvs) = kvs \<and> map fst (to_json_props kvs) = map fst kvs"
proof (induction v and vs and kvs rule: json_value_json_values_json_members.induct)
  case (7 kvs)
  then have a: "of_json_props (to_json_props kvs) = kvs" and d: "distinct (map fst kvs)"
    by auto
  then show ?case using mk_object_distinct[of "[]" kvs] by simp
qed (auto split: jsnum.splits)

lemma parse_stringify:
  "json_value v \<Longrightarrow> \<exists>t. JSON_stringify v = Some t \<and> JSON_parse (ArgString t) = Inr v"
  using json_roundtrip(1)[of v] by (auto simp: JSON_stringify_def)

lemma push_ok:
  "next_fault w = None \<Longrightarrow> JSON_stringify v = Some t \<Longrightarrow>
   push q v w =
     (Inr (), w\<lparr>script := tl (script w),
               lists := (lists w)(queueName q := lists w (queueName q) @ [t]),
               log := log w @ [(RPUSH (queueName q) (Some t), True)]\<rparr>)"
  by (simp add: push_def client_RPUSH_def call_def)

lemma pop_ok:
  "next_fault w = None \<Longrightarrow> lists w (queueName q) = t # ts \<Longrightarrow> JSON_parse (ArgString t) = Inr v \<Longrightarrow>
   pop q w =
     (Inr v, w\<lparr>script := tl (script w), lists := (lists w)(queueName q := ts),
               log := log w @ [(LPOP (queueName q), True)]\<rparr>)"
  by (simp add: pop_def client_LPOP_def call_def)

lemma size_ok:
  "next_fault w = None \<Longrightarrow>
   fst (size_queue q w) = Inr (length (lists w (queueName q)))"
  by (simp add: size_queue_def client_LLEN_def call_def)

text \<open>
  C7. \<^verbatim>\<open>pop\<close> on an empty queue returns \<^verbatim>\<open>null\<close> and throws nothing. It throws, and then
  the error of \<^verbatim>\<open>pop\<close>, exactly when the transport fails the call or the head of the
  queue is malformed JSON text.
\<close>

theorem pop_raises_only_on_failure:
  "(next_fault w = None \<and> lists w (queueName q) = [] \<longrightarrow>
      fst (pop q w) = Inr JNull \<and> lists (snd (pop q w)) = lists w) \<and>
   (fst (pop q w) = Inl e \<longrightarrow>
      e = QueueReadError q \<and>
      (next_fault w \<noteq> None \<or> (\<exists>ts. lists w (queueName q) = Malformed # ts))) \<and>
   (next_fault w \<noteq> None \<or> (\<exists>ts. lists w (queueName q) = Malformed # ts) \<longrightarrow>
      fst (pop q w) = Inl (QueueReadError q))"
  by (auto simp: pop_def client_LPOP_def call_def JSON_parse_Inl_iff
           split: option.splits list.splits prod.splits sum.splits)

theorem pop_raises_only_on_failure_witness:
  "next_fault empty_world = None \<and> lists empty_world (queueName jobs_queue) = [] \<and>
   fst (pop jobs_queue empty_world) = Inr JNull \<and>
   lists (empty_world\<lparr>lists := (\<lambda>k. [Malformed])\<rparr>) (queueName jobs_queue) = [Malformed] \<and>
   fst (pop jobs_queue (empty_world\<lparr>lists := (\<lambda>k. [Malformed])\<rparr>)) = Inl (QueueReadError jobs_queue) \<and>
   next_fault (empty_world\<lparr>script := [Some socket_closed]\<rparr>) = Some socket_closed \<and>
   fst (pop jobs_queue (empty_world\<lparr>script := [Some socket_closed]\<rparr>)) = Inl (QueueReadError jobs_queue)"
proof -
  have a: "next_fault empty_world = None" "lists empty_world (queueName jobs_queue) = []"
    by (simp_all add: empty_world_def next_fault_def)
  have b: "lists (empty_world\<lparr>lists := (\<lambda>k. [Malformed])\<rparr>) (queueName jobs_queue) = [Malformed]"
    by simp
  have c: "next_fault (empty_world\<lparr>script := [Some socket_closed]\<rparr>) = Some socket_closed"
    by (simp add: next_fault_def)
  from a have 1: "fst (pop jobs_queue empty_world) = Inr JNull"
    using pop_raises_only_on_failure [of empty_world jobs_queue "QueueReadError jobs_queue"] by blast
  from b have 2: "fst (pop jobs_queue (empty_world\<lparr>lists := (\<lambda>k. [Malformed])\<rparr>))
      = Inl (QueueReadError jobs_queue)"
    using pop_raises_only_on_failure [of "empty_world\<lparr>lists := (\<lambda>k. [Malformed])\<rparr>" jobs_queue "QueueReadError jobs_queue"]
    by blast
  from c have 3: "fst (pop jobs_queue (empty_world\<lparr>script := [Some socket_closed]\<rparr>))
      = Inl (QueueReadError jobs_queue)"
    using pop_raises_only_on_failure [of "empty_world\<lparr>script := [Some socket_closed]\<rparr>" jobs_queue "QueueReadError jobs_queue"]
    by simp
  from a b c 1 2 3 show ?thesis by blast
qed

text \<open>
  C8, as the claim states it, fails: \<^verbatim>\<open>push(NaN)\<close> on an empty queue succeeds and stores
  the text \<^verbatim>\<open>null\<close>, so the \<^verbatim>\<open>pop\<close> after it returns \<^verbatim>\<open>null\<close>, not \<^verbatim>\<open>NaN\<close>.
\<close>

theorem pop_after_push_NaN:
  "lists empty_world (queueName jobs_queue) = [] \<and>
   fst (push jobs_queue (JNum NaN) empty_world) = Inr () \<and>
   fst (pop jobs_queue (snd (push jobs_queue (JNum NaN) empty_world))) = Inr JNull \<and>
   JNull \<noteq> JNum NaN"
  by (simp add: empty_world_def push_def pop_def client_RPUSH_def client_LPOP_def call_def
        next_fault_def JSON_stringify_def)

text \<open>
  C8, amended. For every value \<open>v\<close> that JSON represents, on an empty queue and with the
  transport failing none of the three calls, \<^verbatim>\<open>pop\<close> after \<^verbatim>\<open>push(v)\<close> returns \<open>v\<close> and
  \<^verbatim>\<open>size\<close> returns 0 afterwards.
\<close>

theorem pop_after_push:
  assumes "json_value v" and "lists w (queueName q) = []" and "faultless 3 w"
  shows "fst (push q v w) = Inr () \<and>
         fst (pop q (snd (push q v w))) = Inr v \<and>
         fst (size_queue q (snd (pop q (snd (push q v w))))) = Inr 0"
proof -
  obtain t where t: "JSON_stringify v = Some t" "JSON_parse (ArgString t) = Inr v"
    using parse_stringify[OF assms(1)] by blast
  have f3: "faultless (Suc 2) w" using assms(3) by (simp add: numeral_3_eq_3)
  have n0: "next_fault w = None" using f3 by (rule faultless_Suc)
  define w1 where "w1 = snd (push q v w)"
  have p: "push q v w = (Inr (), w1)" and l1: "lists w1 (queueName q) = [t]"
    and s1: "script w1 = tl (script w)"
    using push_ok[OF n0 t(1), of q] assms(2) by (simp_all add: w1_def)
  have f2: "faultless (Suc (Suc 0)) w1" using faultless_tl[OF f3 s1] by (simp add: numeral_2_eq_2)
  have n1: "next_fault w1 = None" using f2 by (rule faultless_Suc)
  define w2 where "w2 = snd (pop q w1)"
  have q: "pop q w1 = (Inr v, w2)" and l2: "lists w2 (queueName q) = []"
    and s2: "script w2 = tl (script w1)"
    using pop_ok[OF n1 l1 t(2)] by (simp_all add: w2_def)
  have n2: "next_fault w2 = None" using faultless_tl[OF f2 s2] faultless_Suc[of 0 w2] by simp
  show ?thesis using p q size_ok[OF n2, of q] l2 by (simp add: w1_def[symmetric] w2_def[symmetric])
qed

theorem pop_after_push_witness:
  "json_value (JObj [(''a'', JNum (Fin 1))]) \<and>
   lists empty_world (queueName jobs_queue) = [] \<and> faultless 3 empty_world \<and>
   fst (pop jobs_queue (snd (push jobs_queue (JObj [(''a'', JNum (Fin 1))]) empty_world)))
     = Inr (JObj [(''a'', JNum (Fin 1))]) \<and>
   fst (size_queue jobs_queue
          (snd (pop jobs_queue (snd (push jobs_queue (JObj [(''a'', JNum (Fin 1))]) empty_world)))))
     = Inr 0"
proof -
  have a: "json_value (JObj [(''a'', JNum (Fin 1))])" by simp
  have b: "lists empty_world (queueName jobs_queue) = []" by (simp add: empty_world_def)
  have c: "faultless 3 empty_world" by (simp add: empty_world_def faultless_def)
  show ?thesis using a b c pop_after_push [OF a b c] by simp
qed


section \<open>MessageStream: the single operations\<close>

lemma console_error_frame [simp]:
  "log (console_error e w) = log w" "script (console_error e w) = script w"
  "streams (console_error e w) = streams w" "lists (console_error e w) = lists w"
  "console (console_error e w) = console w @ [e]"
  by (simp_all add: console_error_def)

lemma since_append: "log w' = log w @ xs \<Longrightarrow> since w w' = xs"
  by (simp add: since_def)

lemma since_same [simp]: "since w w = []"
  by (simp add: since_def)

lemma deleteProcessedMessages_cases:
  assumes "deleteProcessedMessages s w = (r, s', w')"
  shows "(processedMessageIds s = [] \<and> r = Inr () \<and> s' = s \<and> w' = w) \<or>
         (processedMessageIds s \<noteq> [] \<and>
          (\<exists>e w1. client_XDEL (streamName s) (processedMessageIds s) w = (Inl e, w1) \<and>
             r = Inl (StreamPurgeError s) \<and> s' = s \<and> w' = console_error e w1)) \<or>
         (processedMessageIds s \<noteq> [] \<and>
          (\<exists>n. client_XDEL (streamName s) (processedMessageIds s) w = (Inr n, w') \<and>
             r = Inr () \<and> s' = s\<lparr>processedMessageIds := []\<rparr>))"
  using assms
  by (auto simp: deleteProcessedMessages_def split: if_splits prod.splits sum.splits)

text \<open>
  C6. \<^verbatim>\<open>deleteProcessedMessages\<close> with an empty buffer makes no client call, changes
  nothing and returns. With IDs in the buffer it sends one bulk delete of exactly those
  IDs: when the delete fails it throws the purge error and the instance is as before;
  when the delete succeeds it returns with the buffer empty. So the buffer changes only
  with a successful bulk delete.
\<close>

theorem deleteProcessedMessages_atomic:
  assumes "deleteProcessedMessages s w = (r, s', w')"
  shows "(processedMessageIds s = [] \<longrightarrow> r = Inr () \<and> s' = s \<and> w' = w) \<and>
         (processedMessageIds s \<noteq> [] \<and>
          isl (fst (client_XDEL (streamName s) (processedMessageIds s) w)) \<longrightarrow>
            r = Inl (StreamPurgeError s) \<and> s' = s \<and>
            since w w' = [(XDEL (streamName s) (processedMessageIds s), False)]) \<and>
         (processedMessageIds s \<noteq> [] \<and>
          \<not> isl (fst (client_XDEL (streamName s) (processedMessageIds s) w)) \<longrightarrow>
            r = Inr () \<and> s' = s\<lparr>processedMessageIds := []\<rparr> \<and>
            since w w' = [(XDEL (streamName s) (processedMessageIds s), True)]) \<and>
         (processedMessageIds s' \<noteq> processedMessageIds s \<longrightarrow>
            processedMessageIds s' = [] \<and>
            since w w' = [(XDEL (streamName s) (processedMessageIds s), True)])"
  using deleteProcessedMessages_cases[OF assms]
proof (elim disjE conjE exE)
  assume "processedMessageIds s = []" "r = Inr ()" "s' = s" "w' = w"
  then show ?thesis by simp
next
  fix e w1
  assume a: "processedMessageIds s \<noteq> []"
    "client_XDEL (streamName s) (processedMessageIds s) w = (Inl e, w1)"
    "r = Inl (StreamPurgeError s)" "s' = s" "w' = console_error e w1"
  from XDEL_frame[OF a(2)] a(5) have "since w w' = [(XDEL (streamName s) (processedMessageIds s), False)]"
    by (simp add: since_def)
  with a show ?thesis by simp
next
  fix n
  assume a: "processedMessageIds s \<noteq> []"
    "client_XDEL (streamName s) (processedMessageIds s) w = (Inr n, w')"
    "r = Inr ()" "s' = s\<lparr>processedMessageIds := []\<rparr>"
  from XDEL_frame[OF a(2)] have "since w w' = [(XDEL (streamName s) (processedMessageIds s), True)]"
    by (simp add: since_def)
  with a show ?thesis by simp
qed

theorem deleteProcessedMessages_atomic_witness:
  "processedMessageIds jobs = [] \<and>
   deleteProcessedMessages jobs empty_world = (Inr (), jobs, empty_world) \<and>
   processedMessageIds (jobs\<lparr>processedMessageIds := [''1-0'']\<rparr>) \<noteq> [] \<and>
   isl (fst (client_XDEL ''stream:jobs'' [''1-0''] (jobs_world [] 0 [] [Some socket_closed]))) \<and>
   fst (deleteProcessedMessages (jobs\<lparr>processedMessageIds := [''1-0'']\<rparr>)
          (jobs_world [] 0 [] [Some socket_closed]))
     = Inl (StreamPurgeError (jobs\<lparr>processedMessageIds := [''1-0'']\<rparr>)) \<and>
   processedMessageIds (fst (snd (deleteProcessedMessages (jobs\<lparr>processedMessageIds := [''1-0'']\<rparr>)
          (jobs_world [] 0 [] [Some socket_closed])))) = [''1-0''] \<and>
   \<not> isl (fst (client_XDEL ''stream:jobs'' [''1-0''] (jobs_world [] 0 [] []))) \<and>
   fst (deleteProcessedMessages (jobs\<lparr>processedMessageIds := [''1-0'']\<rparr>) (jobs_world [] 0 [] []))
     = Inr () \<and>
   processedMessageIds (fst (snd (deleteProcessedMessages (jobs\<lparr>processedMessageIds := [''1-0'']\<rparr>)
          (jobs_world [] 0 [] [])))) = []"
proof -
  let ?s = "jobs\<lparr>processedMessageIds := [''1-0'']\<rparr>"
  let ?bad = "jobs_world [] 0 [] [Some socket_closed]"
  let ?good = "jobs_world [] 0 [] []"
  have n: "streamName ?s = ''stream:jobs''" "processedMessageIds ?s = [''1-0'']"
    "processedMessageIds jobs = []"
    by (simp_all add: jobs_def MessageStream_new_def)
  have bad: "isl (fst (client_XDEL ''stream:jobs'' [''1-0''] ?bad))"
    by (simp add: client_XDEL_def call_def next_fault_def jobs_world_def)
  have good: "\<not> isl (fst (client_XDEL ''stream:jobs'' [''1-0''] ?good))"
    by (simp add: client_XDEL_def call_def next_fault_def jobs_world_def)
  have 1: "deleteProcessedMessages jobs empty_world = (Inr (), jobs, empty_world)"
    using deleteProcessedMessages_atomic
      [of jobs empty_world "fst (deleteProcessedMessages jobs empty_world)"
          "fst (snd (deleteProcessedMessages jobs empty_world))"
          "snd (snd (deleteProcessedMessages jobs empty_world))"] n(3)
    by (simp add: prod_eq_iff)
  have 2: "fst (deleteProcessedMessages ?s ?bad) = Inl (StreamPurgeError ?s) \<and>
           fst (snd (deleteProcessedMessages ?s ?bad)) = ?s"
    using deleteProcessedMessages_atomic
      [of ?s ?bad "fst (deleteProcessedMessages ?s ?bad)"
          "fst (snd (deleteProcessedMessages ?s ?bad))"
          "snd (snd (deleteProcessedMessages ?s ?bad))"] n(1,2) bad
    by simp
  have 3: "fst (deleteProcessedMessages ?s ?good) = Inr () \<and>
           processedMessageIds (fst (snd (deleteProcessedMessages ?s ?good))) = []"
    using deleteProcessedMessages_atomic
      [of ?s ?good "fst (deleteProcessedMessages ?s ?good)"
          "fst (snd (deleteProcessedMessages ?s ?good))"
          "snd (snd (deleteProcessedMessages ?s ?good))"] n(1,2) good
    by simp
  from 2 have k: "processedMessageIds (fst (snd (deleteProcessedMessages ?s ?bad))) = [''1-0'']"
    using n(2) by simp
  from n bad good 1 2 k 3 show ?thesis by simp
qed


lemma call_failed_unchanged:
  assumes "\<And>w0 e0 w1. srv w0 = (Inl e0, w1) \<Longrightarrow> streams w1 = streams w0 \<and> lists w1 = lists w0"
    and "call cmd srv w = (Inl e, w')"
  shows "streams w' = streams w \<and> lists w' = lists w"
proof (cases "next_fault w")
  case None
  obtain r0 w1 where s: "srv (w\<lparr>script := tl (script w)\<rparr>) = (r0, w1)"
    by (cases "srv (w\<lparr>script := tl (script w)\<rparr>)")
  with assms(2) None have "r0 = Inl e" "w' = w1\<lparr>log := log w1 @ [(cmd, False)]\<rparr>"
    by (auto simp: call_def)
  with assms(1)[of "w\<lparr>script := tl (script w)\<rparr>" e w1] s show ?thesis by simp
next
  case (Some e')
  with assms(2) show ?thesis by (auto simp: call_def)
qed

lemma XGROUP_CREATE_failed:
  "client_XGROUP_CREATE key grp start mk w = (Inl e, w') \<Longrightarrow>
   streams w' = streams w \<and> lists w' = lists w"
  unfolding client_XGROUP_CREATE_def
  by (erule call_failed_unchanged[rotated]) (auto split: option.splits if_splits)

lemma XAUTOCLAIM_failed:
  "client_XAUTOCLAIM key grp c mi st n w = (Inl e, w') \<Longrightarrow>
   streams w' = streams w \<and> lists w' = lists w"
  unfolding client_XAUTOCLAIM_def
  by (erule call_failed_unchanged[rotated]) (auto split: option.splits if_splits prod.splits)

lemma XREADGROUP_failed:
  "client_XREADGROUP grp c key st b n w = (Inl e, w') \<Longrightarrow>
   streams w' = streams w \<and> lists w' = lists w"
  unfolding client_XREADGROUP_def
  by (erule call_failed_unchanged[rotated]) (auto split: option.splits if_splits list.splits)

lemma XACK_failed:
  "client_XACK key grp i w = (Inl e, w') \<Longrightarrow> streams w' = streams w \<and> lists w' = lists w"
  unfolding client_XACK_def
  by (erule call_failed_unchanged[rotated]) (auto split: option.splits if_splits)

lemma XDEL_failed:
  "client_XDEL key ids w = (Inl e, w') \<Longrightarrow> streams w' = streams w \<and> lists w' = lists w"
  unfolding client_XDEL_def
  by (erule call_failed_unchanged[rotated]) (auto split: option.splits if_splits)

lemma autoclaim_bound:
  "autoclaim n es c ps = (claimed, scanned, rest) \<Longrightarrow>
   length claimed \<le> n \<and> length scanned = length claimed \<and> set rest \<subseteq> set ps \<and>
   map fst scanned = map fst claimed \<and> (\<forall>p \<in> set scanned. snd p = c)"
proof (induction n es c ps arbitrary: claimed scanned rest rule: autoclaim.induct)
  case (3 n es c i owner ps)
  show ?case
  proof (cases "map_of es i")
    case None
    with 3 show ?thesis by auto
  next
    case (Some fs)
    obtain cl sc rs where r: "autoclaim n es c ps = (cl, sc, rs)"
      by (cases "autoclaim n es c ps")
    from "3.IH"(2)[OF Some r] "3.prems" Some r show ?thesis by auto
  qed
qed auto

lemma getFailedMessage_cases:
  assumes "getFailedMessage s w = (r, w')"
  shows "(\<exists>e w1. client_XAUTOCLAIM (streamName s) (consumerGroup s) (consumerId s) 0 ''0'' 1 w
              = (Inl e, w1) \<and> r = Inl e \<and> w' = console_error e w1) \<or>
         (\<exists>rep. client_XAUTOCLAIM (streamName s) (consumerGroup s) (consumerId s) 0 ''0'' 1 w
              = (Inr rep, w') \<and> (rep = None \<or> (\<exists>nid. rep = Some (nid, []))) \<and>
              r = Inr (None, JUndefined)) \<or>
         (\<exists>nid m ms w1. client_XAUTOCLAIM (streamName s) (consumerGroup s) (consumerId s) 0 ''0'' 1 w
              = (Inr (Some (nid, m # ms)), w1) \<and>
              ((\<exists>e. JSON_parse (data_of m) = Inl e \<and> r = Inl e \<and> w' = console_error e w1) \<or>
               (\<exists>v. JSON_parse (data_of m) = Inr v \<and> r = Inr (Some (fst m), v) \<and> w' = w1)))"
  using assms
  by (auto simp: getFailedMessage_def split: prod.splits sum.splits option.splits list.splits)

lemma getFailedMessage_log:
  assumes "getFailedMessage s w = (r, w')"
  shows "\<exists>ok. log w' = log w @ [(XAUTOCLAIM (streamName s) (consumerGroup s) (consumerId s) 0 ''0'' 1, ok)]"
  using getFailedMessage_cases[OF assms]
  by (elim disjE exE conjE) (auto dest!: XAUTOCLAIM_frame)

lemma XAUTOCLAIM_reply:
  assumes "client_XAUTOCLAIM key grp c 0 ''0'' n w = (Inr rep, w')"
  shows "\<exists>nid ms. rep = Some (nid, ms) \<and> length ms \<le> n \<and>
           length (filter (\<lambda>p. p \<notin> set (pending_of key grp w)) (pending_of key grp w')) \<le> n"
proof -
  from assms have nf: "next_fault w = None"
    by (auto simp: client_XAUTOCLAIM_def call_def split: option.splits)
  from assms nf obtain st g where st: "streams w key = Some st" and g: "groups st grp = Some g"
    by (auto simp: client_XAUTOCLAIM_def call_def split: option.splits)
  obtain claimed scanned rest where a: "autoclaim n (entries st) c (pending g) = (claimed, scanned, rest)"
    by (cases "autoclaim n (entries st) c (pending g)")
  from autoclaim_bound[OF a] have b: "length claimed \<le> n" "length scanned = length claimed"
    "set rest \<subseteq> set (pending g)" by auto
  have p: "pending_of key grp w = pending g" using st g by (simp add: pending_of_def)
  have p': "pending_of key grp w' = scanned @ rest"
    using assms nf st g a by (auto simp: client_XAUTOCLAIM_def call_def pending_of_def put_group_def)
  have "filter (\<lambda>p. p \<notin> set (pending g)) rest = []" using b(3) by (auto simp: filter_empty_conv)
  then have "length (filter (\<lambda>p. p \<notin> set (pending g)) (scanned @ rest)) \<le> length scanned"
    by simp
  with b p p' have "length (filter (\<lambda>p. p \<notin> set (pending_of key grp w)) (pending_of key grp w')) \<le> n"
    by simp
  moreover have "\<exists>nid. rep = Some (nid, map render claimed)"
    using assms nf st g a by (auto simp: client_XAUTOCLAIM_def call_def)
  ultimately show ?thesis using b(1) by auto
qed

lemma XAUTOCLAIM_nothing_pending:
  assumes "next_fault w = None" and "cursor_of key grp w \<noteq> None"
    and "pending_of key grp w = []"
  shows "fst (client_XAUTOCLAIM key grp c 0 ''0'' 1 w) = Inr (Some (''0-0'', []))"
proof -
  from assms(2) obtain st g where st: "streams w key = Some st" and g: "groups st grp = Some g"
    by (auto simp: cursor_of_def split: option.splits)
  with assms(3) have "pending g = []" by (simp add: pending_of_def)
  with assms(1) st g show ?thesis by (simp add: client_XAUTOCLAIM_def call_def)
qed

text \<open>
  C4. \<^verbatim>\<open>getFailedMessage\<close> makes one client call, \<^verbatim>\<open>XAUTOCLAIM\<close> with a minimum idle
  time of 0 from ID \<^verbatim>\<open>0\<close> and \<^verbatim>\<open>COUNT 1\<close>. A reply claims at most one entry (at most one
  pending entry is new or has changed owner). When the reply carries no entry, as it does
  when the group has nothing pending, the result is
  \<^verbatim>\<open>{id: undefined, message: undefined}\<close>; when the call fails with \<open>e\<close> the method
  throws that same \<open>e\<close>.
\<close>

theorem getFailedMessage_claims_one:
  assumes "getFailedMessage s w = (r, w')"
  shows "(\<exists>ok. since w w' =
            [(XAUTOCLAIM (streamName s) (consumerGroup s) (consumerId s) 0 ''0'' 1, ok)]) \<and>
         length (filter (\<lambda>p. p \<notin> set (pending_of (streamName s) (consumerGroup s) w))
                   (pending_of (streamName s) (consumerGroup s) w')) \<le> 1 \<and>
         (\<forall>e. fst (client_XAUTOCLAIM (streamName s) (consumerGroup s) (consumerId s) 0 ''0'' 1 w)
                = Inl e \<longrightarrow> r = Inl e) \<and>
         (\<forall>rep. fst (client_XAUTOCLAIM (streamName s) (consumerGroup s) (consumerId s) 0 ''0'' 1 w)
                = Inr rep \<and> (rep = None \<or> (\<exists>nid. rep = Some (nid, []))) \<longrightarrow>
                r = Inr (None, JUndefined)) \<and>
         (next_fault w = None \<and> cursor_of (streamName s) (consumerGroup s) w \<noteq> None \<and>
          pending_of (streamName s) (consumerGroup s) w = [] \<longrightarrow>
            r = Inr (None, JUndefined))"
proof -
  let ?call = "client_XAUTOCLAIM (streamName s) (consumerGroup s) (consumerId s) 0 ''0'' 1 w"
  have 1: "\<exists>ok. since w w' =
            [(XAUTOCLAIM (streamName s) (consumerGroup s) (consumerId s) 0 ''0'' 1, ok)]"
    using getFailedMessage_log[OF assms] by (auto simp: since_def)
  have 2: "length (filter (\<lambda>p. p \<notin> set (pending_of (streamName s) (consumerGroup s) w))
                   (pending_of (streamName s) (consumerGroup s) w')) \<le> 1"
  proof (cases "fst ?call")
    case (Inl e)
    then have c: "?call = (Inl e, snd ?call)" by (simp add: prod_eq_iff)
    have "streams (snd ?call) = streams w" using XAUTOCLAIM_failed[OF c] by simp
    moreover have "w' = console_error e (snd ?call)"
      using getFailedMessage_cases[OF assms] Inl by auto
    ultimately have "pending_of (streamName s) (consumerGroup s) w'
        = pending_of (streamName s) (consumerGroup s) w"
      by (simp add: pending_of_def)
    then show ?thesis by simp
  next
    case (Inr rep)
    then have c: "?call = (Inr rep, snd ?call)" by (simp add: prod_eq_iff)
    have "streams w' = streams (snd ?call)"
      using getFailedMessage_cases[OF assms] c by auto
    then have "pending_of (streamName s) (consumerGroup s) w'
        = pending_of (streamName s) (consumerGroup s) (snd ?call)"
      by (simp add: pending_of_def)
    with XAUTOCLAIM_reply[OF c] show ?thesis by auto
  qed
  have 3: "\<forall>e. fst ?call = Inl e \<longrightarrow> r = Inl e"
    using getFailedMessage_cases[OF assms] by auto
  have 4: "\<forall>rep. fst ?call = Inr rep \<and> (rep = None \<or> (\<exists>nid. rep = Some (nid, [])))
             \<longrightarrow> r = Inr (None, JUndefined)"
    using getFailedMessage_cases[OF assms] by auto
  have 5: "r = Inr (None, JUndefined)"
    if "next_fault w = None" "cursor_of (streamName s) (consumerGroup s) w \<noteq> None"
      "pending_of (streamName s) (consumerGroup s) w = []"
    using XAUTOCLAIM_nothing_pending[OF that, of "consumerId s"] 4 by blast
  from 1 2 3 4 5 show ?thesis by blast
qed

lemma jobs_fields [simp]:
  "streamName jobs = ''stream:jobs''" "consumerGroup jobs = ''jobs:consumer:group''"
  "consumerId jobs = ''0''" "processedMessageIds jobs = []"
  by (simp_all add: jobs_def MessageStream_new_def)

theorem getFailedMessage_claims_one_witness:
  "fst (client_XAUTOCLAIM ''stream:jobs'' ''jobs:consumer:group'' ''0'' 0 ''0'' 1
          (jobs_world [] 0 [] [Some socket_closed])) = Inl socket_closed \<and>
   fst (getFailedMessage jobs (jobs_world [] 0 [] [Some socket_closed])) = Inl socket_closed \<and>
   fst (client_XAUTOCLAIM ''stream:jobs'' ''jobs:consumer:group'' ''0'' 0 ''0'' 1
          (jobs_world [] 0 [] [])) = Inr (Some (''0-0'', [])) \<and>
   fst (getFailedMessage jobs (jobs_world [] 0 [] [])) = Inr (None, JUndefined)"
proof -
  let ?bad = "jobs_world [] 0 [] [Some socket_closed]"
  let ?none = "jobs_world [] 0 [] []"
  have a: "fst (client_XAUTOCLAIM ''stream:jobs'' ''jobs:consumer:group'' ''0'' 0 ''0'' 1 ?bad)
      = Inl socket_closed"
    by (simp add: client_XAUTOCLAIM_def call_def next_fault_def jobs_world_def)
  have b: "fst (client_XAUTOCLAIM ''stream:jobs'' ''jobs:consumer:group'' ''0'' 0 ''0'' 1 ?none)
      = Inr (Some (''0-0'', []))"
    by (simp add: client_XAUTOCLAIM_def call_def next_fault_def jobs_world_def)
  have 1: "fst (getFailedMessage jobs ?bad) = Inl socket_closed"
    using getFailedMessage_claims_one
      [of jobs ?bad "fst (getFailedMessage jobs ?bad)" "snd (getFailedMessage jobs ?bad)"] a
    by simp
  have c: "next_fault ?none = None"
    "cursor_of (streamName jobs) (consumerGroup jobs) ?none \<noteq> None"
    "pending_of (streamName jobs) (consumerGroup jobs) ?none = []"
    by (simp_all add: next_fault_def cursor_of_def pending_of_def jobs_world_def)
  have 2: "fst (getFailedMessage jobs ?none) = Inr (None, JUndefined)"
    using getFailedMessage_claims_one
      [of jobs ?none "fst (getFailedMessage jobs ?none)" "snd (getFailedMessage jobs ?none)"] c
    by simp
  from a b 1 2 show ?thesis by simp
qed

lemma connect_cases:
  assumes "connect s w = (r, w')"
  shows "(\<exists>e w1. client_connect w = (Inl e, w1) \<and> connect_catch s e w1 = (r, w')) \<or>
         (\<exists>w1 e w2. client_connect w = (Inr (), w1) \<and>
            client_XGROUP_CREATE (streamName s) (consumerGroup s) ''$'' True w1 = (Inl e, w2) \<and>
            connect_catch s e w2 = (r, w')) \<or>
         (\<exists>w1. client_connect w = (Inr (), w1) \<and>
            client_XGROUP_CREATE (streamName s) (consumerGroup s) ''$'' True w1 = (Inr (), w') \<and>
            r = Inr ())"
  using assms by (auto simp: connect_def split: prod.splits sum.splits)

lemma client_connect_unchanged:
  "streams (snd (client_connect w)) = streams w \<and> lists (snd (client_connect w)) = lists w"
  by (auto simp: client_connect_def call_def split: option.splits)

lemma XGROUP_CREATE_busy:
  assumes "next_fault w = None" and "cursor_of key grp w \<noteq> None"
  shows "client_XGROUP_CREATE key grp ''$'' True w
           = (Inl BUSYGROUP, w\<lparr>script := tl (script w),
                                log := log w @ [(XGROUP_CREATE key grp ''$'' True, False)]\<rparr>)"
  using assms
  by (auto simp: client_XGROUP_CREATE_def call_def cursor_of_def split: option.splits)

text \<open>
  C5. When the creation of the group fails with the error that the group exists,
  \<^verbatim>\<open>connect\<close> returns, prints nothing and leaves every stream, and so the cursor and the
  pending list of the group, as they were; this is what happens whenever the group
  exists and the transport fails neither call. A failure of either call with another
  message surfaces as the connect error of the stream.
\<close>

theorem connect_idempotent:
  "(fst (client_connect w) = Inr () \<and>
    fst (client_XGROUP_CREATE (streamName s) (consumerGroup s) ''$'' True (snd (client_connect w)))
      = Inl e \<and>
    err_message e = ''BUSYGROUP Consumer Group name already exists'' \<longrightarrow>
      fst (connect s w) = Inr () \<and> streams (snd (connect s w)) = streams w \<and>
      console (snd (connect s w)) = console w) \<and>
   (faultless 2 w \<and> cursor_of (streamName s) (consumerGroup s) w \<noteq> None \<longrightarrow>
      fst (connect s w) = Inr () \<and> streams (snd (connect s w)) = streams w \<and>
      cursor_of (streamName s) (consumerGroup s) (snd (connect s w))
        = cursor_of (streamName s) (consumerGroup s) w \<and>
      pending_of (streamName s) (consumerGroup s) (snd (connect s w))
        = pending_of (streamName s) (consumerGroup s) w) \<and>
   (fst (client_connect w) = Inl e \<and>
    err_message e \<noteq> ''BUSYGROUP Consumer Group name already exists'' \<longrightarrow>
      fst (connect s w) = Inl (StreamConnectError s)) \<and>
   (fst (client_connect w) = Inr () \<and>
    fst (client_XGROUP_CREATE (streamName s) (consumerGroup s) ''$'' True (snd (client_connect w)))
      = Inl e \<and>
    err_message e \<noteq> ''BUSYGROUP Consumer Group name already exists'' \<longrightarrow>
      fst (connect s w) = Inl (StreamConnectError s))"
proof -
  let ?K = "streamName s" and ?G = "consumerGroup s"
  let ?busy = "''BUSYGROUP Consumer Group name already exists''"
  obtain r1 w1 where c1: "client_connect w = (r1, w1)" by (cases "client_connect w")
  obtain r2 w2 where c2: "client_XGROUP_CREATE ?K ?G ''$'' True w1 = (r2, w2)"
    by (cases "client_XGROUP_CREATE ?K ?G ''$'' True w1")
  have s1: "streams w1 = streams w" using client_connect_unchanged[of w] c1 by simp
  have k1: "console w1 = console w" using connect_frame[OF c1] by simp
  have A: "fst (connect s w) = Inr () \<and> streams (snd (connect s w)) = streams w \<and>
           console (snd (connect s w)) = console w"
    if "r1 = Inr ()" "r2 = Inl e'" "err_message e' = ?busy" for e'
  proof -
    have "streams w2 = streams w1" "console w2 = console w1"
      using XGROUP_CREATE_failed[of ?K ?G "''$''" True w1 e' w2] XGROUP_CREATE_frame[OF c2] c2 that
      by simp_all
    then show ?thesis using c1 c2 that s1 k1 by (simp add: connect_def connect_catch_def)
  qed
  have B: "fst (connect s w) = Inr () \<and> streams (snd (connect s w)) = streams w"
    if f: "faultless 2 w" and g: "cursor_of ?K ?G w \<noteq> None"
  proof -
    have f2: "faultless (Suc (Suc 0)) w" using f by (simp add: numeral_2_eq_2)
    have n0: "next_fault w = None" using f2 by (rule faultless_Suc)
    then have r1: "r1 = Inr ()" using c1 by (auto simp: client_connect_def call_def)
    have "script w1 = tl (script w)" using connect_frame[OF c1] by simp
    then have n1: "next_fault w1 = None" using faultless_tl[OF f2] faultless_Suc[of 0 w1] by simp
    have g1: "cursor_of ?K ?G w1 \<noteq> None" using g s1 by (simp add: cursor_of_def)
    have "r2 = Inl BUSYGROUP" using XGROUP_CREATE_busy[OF n1 g1] c2 by simp
    with A[of BUSYGROUP] r1 show ?thesis by (simp add: BUSYGROUP_def ErrorReply_def)
  qed
  have C: "fst (connect s w) = Inl (StreamConnectError s)"
    if "r1 = Inl e" "err_message e \<noteq> ?busy"
    using c1 that by (simp add: connect_def connect_catch_def)
  have D: "fst (connect s w) = Inl (StreamConnectError s)"
    if "r1 = Inr ()" "r2 = Inl e" "err_message e \<noteq> ?busy"
    using c1 c2 that by (simp add: connect_def connect_catch_def)
  have B': "cursor_of ?K ?G (snd (connect s w)) = cursor_of ?K ?G w \<and>
            pending_of ?K ?G (snd (connect s w)) = pending_of ?K ?G w"
    if "streams (snd (connect s w)) = streams w"
    using that by (simp add: cursor_of_def pending_of_def)
  from A B B' C D c1 c2 show ?thesis by auto
qed

theorem connect_idempotent_witness:
  "cursor_of ''stream:jobs'' ''jobs:consumer:group'' (jobs_world (backlog 2) 1 [(1, ''0'')] []) = Some 1 \<and>
   faultless 2 (jobs_world (backlog 2) 1 [(1, ''0'')] []) \<and>
   fst (client_XGROUP_CREATE ''stream:jobs'' ''jobs:consumer:group'' ''$'' True
          (snd (client_connect (jobs_world (backlog 2) 1 [(1, ''0'')] [])))) = Inl BUSYGROUP \<and>
   fst (connect jobs (jobs_world (backlog 2) 1 [(1, ''0'')] [])) = Inr () \<and>
   cursor_of ''stream:jobs'' ''jobs:consumer:group''
     (snd (connect jobs (jobs_world (backlog 2) 1 [(1, ''0'')] []))) = Some 1 \<and>
   pending_of ''stream:jobs'' ''jobs:consumer:group''
     (snd (connect jobs (jobs_world (backlog 2) 1 [(1, ''0'')] []))) = [(1, ''0'')] \<and>
   fst (client_connect (empty_world\<lparr>script := [Some socket_closed]\<rparr>)) = Inl socket_closed \<and>
   fst (connect jobs (empty_world\<lparr>script := [Some socket_closed]\<rparr>)) = Inl (StreamConnectError jobs) \<and>
   fst (client_XGROUP_CREATE ''stream:jobs'' ''jobs:consumer:group'' ''$'' True
          (snd (client_connect (empty_world\<lparr>script := [None, Some socket_closed]\<rparr>))))
     = Inl socket_closed \<and>
   fst (connect jobs (empty_world\<lparr>script := [None, Some socket_closed]\<rparr>))
     = Inl (StreamConnectError jobs)"
proof -
  let ?w = "jobs_world (backlog 2) 1 [(1, ''0'')] []"
  let ?b1 = "empty_world\<lparr>script := [Some socket_closed]\<rparr>"
  let ?b2 = "empty_world\<lparr>script := [None, Some socket_closed]\<rparr>"
  let ?busy = "''BUSYGROUP Consumer Group name already exists''"
  have cur: "cursor_of ''stream:jobs'' ''jobs:consumer:group'' ?w = Some 1"
    and pen: "pending_of ''stream:jobs'' ''jobs:consumer:group'' ?w = [(1, ''0'')]"
    and fl: "faultless 2 ?w"
    by (simp_all add: cursor_of_def pending_of_def jobs_world_def faultless_def)
  have c0: "fst (client_connect ?w) = Inr ()"
    by (simp add: client_connect_def call_def next_fault_def jobs_world_def)
  have g0: "fst (client_XGROUP_CREATE ''stream:jobs'' ''jobs:consumer:group'' ''$'' True
               (snd (client_connect ?w))) = Inl BUSYGROUP"
    by (simp add: client_XGROUP_CREATE_def client_connect_def call_def next_fault_def jobs_world_def)
  have m0: "err_message BUSYGROUP = ?busy" "err_message socket_closed \<noteq> ?busy"
    by (simp_all add: BUSYGROUP_def ErrorReply_def socket_closed_def)
  have c1: "fst (client_connect ?b1) = Inl socket_closed"
    by (simp add: client_connect_def call_def next_fault_def)
  have c2: "fst (client_connect ?b2) = Inr ()"
    by (simp add: client_connect_def call_def next_fault_def)
  have g2: "fst (client_XGROUP_CREATE ''stream:jobs'' ''jobs:consumer:group'' ''$'' True
               (snd (client_connect ?b2))) = Inl socket_closed"
    by (simp add: client_XGROUP_CREATE_def client_connect_def call_def next_fault_def)
  have 1: "fst (connect jobs ?w) = Inr () \<and>
           cursor_of ''stream:jobs'' ''jobs:consumer:group'' (snd (connect jobs ?w)) = Some 1 \<and>
           pending_of ''stream:jobs'' ''jobs:consumer:group'' (snd (connect jobs ?w)) = [(1, ''0'')]"
    using connect_idempotent [of ?w jobs BUSYGROUP] cur pen fl c0 g0 m0 by simp
  have 2: "fst (connect jobs ?b1) = Inl (StreamConnectError jobs)"
    using connect_idempotent [of ?b1 jobs socket_closed] c1 m0 by simp
  have 3: "fst (connect jobs ?b2) = Inl (StreamConnectError jobs)"
    using connect_idempotent [of ?b2 jobs socket_closed] c2 g2 m0 by simp
  from cur fl g0 c1 g2 1 2 3 show ?thesis by simp
qed


section \<open>MessageStream: consumeMessage\<close>

lemma id_text_1: "id_text (Suc 0) = ''1-0''"
  by (simp add: id_text_def dec.simps digit_def)

lemma id_text_2: "id_text 2 = ''2-0''"
  by (simp add: id_text_def dec.simps digit_def)

lemmas consume_defs =
  consumeMessage_def consume_failed_def consume_new_def consume_ack_def getFailedMessage_def
  deleteProcessedMessages_def client_XAUTOCLAIM_def client_XREADGROUP_def client_XACK_def
  client_XDEL_def call_def next_fault_def put_stream_def put_group_def render_def data_of_def
  set_add_def MAX_PROCESSED_IDS_def console_error_def jobs_world_def

text \<open>
  C2. The code does not do what the claim says when the payload of the failed entry is
  falsy. In \<open>shadowed_world\<close> the entry \<open>1-0\<close> of payload 0 is pending:
  \<^verbatim>\<open>getFailedMessage\<close> yields it, and \<^verbatim>\<open>consumeMessage\<close> still makes the blocking group
  read, returns the new entry \<open>2-0\<close> and acknowledges that one, leaving \<open>1-0\<close> pending.
\<close>

theorem consumeMessage_shadows_falsy_failed_message:
  "pending_for ''stream:jobs'' ''jobs:consumer:group'' ''0'' shadowed_world = [''1-0''] \<and>
   fst (getFailedMessage jobs shadowed_world) = Inr (Some ''1-0'', JNum (Fin 0)) \<and>
   fst (consumeMessage jobs shadowed_world) = Inr (Some ''2-0'', JStr ''new'') \<and>
   log (snd (snd (consumeMessage jobs shadowed_world))) =
     [(XAUTOCLAIM ''stream:jobs'' ''jobs:consumer:group'' ''0'' 0 ''0'' 1, True),
      (XREADGROUP ''jobs:consumer:group'' ''0'' ''stream:jobs'' ''>'' 2000 1, True),
      (XACK ''stream:jobs'' ''jobs:consumer:group'' ''2-0'', True)] \<and>
   pending_for ''stream:jobs'' ''jobs:consumer:group'' ''0''
     (snd (snd (consumeMessage jobs shadowed_world))) = [''1-0'']"
proof -
  have a: "pending_for ''stream:jobs'' ''jobs:consumer:group'' ''0'' shadowed_world = [''1-0'']"
    by (simp add: pending_for_def pending_of_def shadowed_world_def jobs_world_def id_text_1)
  have b: "fst (getFailedMessage jobs shadowed_world) = Inr (Some ''1-0'', JNum (Fin 0))"
    by (simp add: shadowed_world_def consume_defs id_text_1 id_text_2)
  have c: "fst (consumeMessage jobs shadowed_world) = Inr (Some ''2-0'', JStr ''new'')"
    by (simp add: shadowed_world_def consume_defs id_text_1 id_text_2)
  have d: "log (snd (snd (consumeMessage jobs shadowed_world))) =
     [(XAUTOCLAIM ''stream:jobs'' ''jobs:consumer:group'' ''0'' 0 ''0'' 1, True),
      (XREADGROUP ''jobs:consumer:group'' ''0'' ''stream:jobs'' ''>'' 2000 1, True),
      (XACK ''stream:jobs'' ''jobs:consumer:group'' ''2-0'', True)]"
    by (simp add: shadowed_world_def consume_defs id_text_1 id_text_2)
  have e: "pending_for ''stream:jobs'' ''jobs:consumer:group'' ''0''
     (snd (snd (consumeMessage jobs shadowed_world))) = [''1-0'']"
    by (simp add: pending_for_def pending_of_def shadowed_world_def consume_defs id_text_1 id_text_2)
  from a b c d e show ?thesis by blast
qed

subsection \<open>The three blocks of consumeMessage\<close>

lemma pending_for_cong:
  "streams w' = streams w \<Longrightarrow> pending_for key grp c w' = pending_for key grp c w"
  by (simp add: pending_for_def pending_of_def)

lemma autoclaim_owner:
  "autoclaim n es c ps = (claimed, scanned, rest) \<Longrightarrow>
   fst ` set claimed \<subseteq> fst ` {p \<in> set (scanned @ rest). snd p = c}"
proof (induction n es c ps arbitrary: claimed scanned rest rule: autoclaim.induct)
  case (3 n es c i owner ps)
  show ?case
  proof (cases "map_of es i")
    case None
    with 3 show ?thesis by auto
  next
    case (Some fs)
    obtain cl sc rs where r: "autoclaim n es c ps = (cl, sc, rs)"
      by (cases "autoclaim n es c ps")
    have ih: "fst ` set cl \<subseteq> fst ` {p \<in> set (sc @ rs). snd p = c}"
      by (rule "3.IH"(2)[OF Some r])
    from "3.prems" Some r have eq: "claimed = (i, fs) # cl" "scanned = (i, c) # sc" "rest = rs"
      by simp_all
    have "i \<in> fst ` {p \<in> set (scanned @ rest). snd p = c}"
      unfolding eq by (rule image_eqI[where x="(i, c)"]) simp_all
    moreover have "fst ` {p \<in> set (sc @ rs). snd p = c} \<subseteq> fst ` {p \<in> set (scanned @ rest). snd p = c}"
      unfolding eq by auto
    ultimately show ?thesis using ih unfolding eq(1) by auto
  qed
qed auto

lemma XAUTOCLAIM_claimed:
  assumes "client_XAUTOCLAIM key grp c 0 ''0'' n w = (Inr (Some (nid, ms)), w')"
  shows "fst ` set ms \<subseteq> set (pending_for key grp c w')"
proof -
  from assms have nf: "next_fault w = None"
    by (auto simp: client_XAUTOCLAIM_def call_def split: option.splits)
  from assms nf obtain st g where st: "streams w key = Some st" and g: "groups st grp = Some g"
    by (auto simp: client_XAUTOCLAIM_def call_def split: option.splits)
  obtain claimed scanned rest where a: "autoclaim n (entries st) c (pending g) = (claimed, scanned, rest)"
    by (cases "autoclaim n (entries st) c (pending g)")
  have p': "pending_of key grp w' = scanned @ rest" and ms: "ms = map render claimed"
    using assms nf st g a by (auto simp: client_XAUTOCLAIM_def call_def pending_of_def put_group_def)
  show ?thesis
  proof
    fix i assume "i \<in> fst ` set ms"
    then obtain e where e: "e \<in> set claimed" "i = id_text (fst e)"
      using ms by (auto simp: render_def)
    with autoclaim_owner[OF a] obtain p where "p \<in> set (scanned @ rest)" "snd p = c" "fst p = fst e"
      by force
    with e p' show "i \<in> set (pending_for key grp c w')"
      by (force simp: pending_for_def)
  qed
qed

lemma consume_failed_spec:
  assumes "consume_failed s w = (im, w1)"
  shows "(\<exists>ok. log w1 = log w @
            [(XAUTOCLAIM (streamName s) (consumerGroup s) (consumerId s) 0 ''0'' 1, ok)]) \<and>
         (\<forall>i. fst im = Some i \<longrightarrow>
            i \<in> set (pending_for (streamName s) (consumerGroup s) (consumerId s) w1))"
proof -
  obtain r w0 where g: "getFailedMessage s w = (r, w0)" by (cases "getFailedMessage s w")
  have l: "\<exists>ok. log w1 = log w @
            [(XAUTOCLAIM (streamName s) (consumerGroup s) (consumerId s) 0 ''0'' 1, ok)]"
    using getFailedMessage_log[OF g] assms g
    by (auto simp: consume_failed_def split: sum.splits)
  have "i \<in> set (pending_for (streamName s) (consumerGroup s) (consumerId s) w1)"
    if "fst im = Some i" for i
  proof -
    from that assms g have r: "r = Inr (Some i, snd im)" and w: "w1 = w0"
      by (auto simp: consume_failed_def prod_eq_iff split: sum.splits)
    from getFailedMessage_cases[OF g] r obtain nid m ms where
      "client_XAUTOCLAIM (streamName s) (consumerGroup s) (consumerId s) 0 ''0'' 1 w
         = (Inr (Some (nid, m # ms)), w0)" "fst m = i"
      by auto
    with XAUTOCLAIM_claimed[of "streamName s" "consumerGroup s" "consumerId s" 1 w nid "m # ms" w0] w
    show ?thesis by auto
  qed
  with l show ?thesis by blast
qed

lemma XREADGROUP_none:
  assumes "next_fault w = None" "streams w key = Some st" "groups st grp = Some g"
    and "take n (filter (\<lambda>e. last_delivered g < fst e) (entries st)) = []"
  shows "client_XREADGROUP grp c key ''>'' b n w =
           (Inr None, w\<lparr>script := tl (script w),
                          log := log w @ [(XREADGROUP grp c key ''>'' b n, True)]\<rparr>)"
  by (simp add: client_XREADGROUP_def call_def assms)

lemma XREADGROUP_some:
  assumes "next_fault w = None" "streams w key = Some st" "groups st grp = Some g"
    and "take n (filter (\<lambda>e. last_delivered g < fst e) (entries st)) = d # ds"
  shows "client_XREADGROUP grp c key ''>'' b n w =
           (Inr (Some [(key, map render (d # ds))]),
            (put_stream key
               (put_group grp
                  (g\<lparr>last_delivered := fst (last (d # ds)),
                     pending := pending g @ map (\<lambda>e. (fst e, c)) (d # ds)\<rparr>) st)
               (w\<lparr>script := tl (script w)\<rparr>))
              \<lparr>log := log w @ [(XREADGROUP grp c key ''>'' b n, True)]\<rparr>)"
  by (simp add: client_XREADGROUP_def call_def assms)

lemma XREADGROUP_ok_exists:
  assumes "client_XREADGROUP grp c key ''>'' b n w = (Inr rep, w')"
  shows "next_fault w = None \<and> (\<exists>st g. streams w key = Some st \<and> groups st grp = Some g)"
  using assms
  by (simp add: client_XREADGROUP_def call_def split: option.splits if_splits)

lemma XREADGROUP_pending:
  assumes "client_XREADGROUP grp c key ''>'' b n w = (r, w')"
  shows "set (pending_for key grp c w) \<subseteq> set (pending_for key grp c w') \<and>
         (\<forall>name m ms rs. r = Inr (Some ((name, m # ms) # rs)) \<longrightarrow>
            fst m \<in> set (pending_for key grp c w'))"
proof (cases r)
  case (Inl e)
  with XREADGROUP_failed[of grp c key "''>''" b n w e w'] assms
  have "streams w' = streams w" by simp
  from pending_for_cong[OF this] Inl show ?thesis by simp
next
  case (Inr rep)
  from XREADGROUP_ok_exists[of grp c key b n w rep w'] assms Inr
  obtain st g where nf: "next_fault w = None" and st: "streams w key = Some st"
    and g: "groups st grp = Some g" by auto
  let ?new = "take n (filter (\<lambda>e. last_delivered g < fst e) (entries st))"
  show ?thesis
  proof (cases ?new)
    case Nil
    have "(r, w') = (Inr None, w\<lparr>script := tl (script w),
                          log := log w @ [(XREADGROUP grp c key ''>'' b n, True)]\<rparr>)"
      using assms[unfolded XREADGROUP_none[OF nf st g Nil]] by (rule sym)
    then have "w' = w\<lparr>script := tl (script w),
                          log := log w @ [(XREADGROUP grp c key ''>'' b n, True)]\<rparr>" "r = Inr None"
      by simp_all
    with Inr have "streams w' = streams w" "rep = None" by simp_all
    from pending_for_cong[OF this(1)] this(2) Inr show ?thesis by simp
  next
    case (Cons d ds)
    have "(r, w') = (Inr (Some [(key, map render (d # ds))]),
            (put_stream key
               (put_group grp
                  (g\<lparr>last_delivered := fst (last (d # ds)),
                     pending := pending g @ map (\<lambda>e. (fst e, c)) (d # ds)\<rparr>) st)
               (w\<lparr>script := tl (script w)\<rparr>))
              \<lparr>log := log w @ [(XREADGROUP grp c key ''>'' b n, True)]\<rparr>)"
      using assms[unfolded XREADGROUP_some[OF nf st g Cons]] by (rule sym)
    then have w': "w' = (put_stream key
               (put_group grp
                  (g\<lparr>last_delivered := fst (last (d # ds)),
                     pending := pending g @ map (\<lambda>e. (fst e, c)) (d # ds)\<rparr>) st)
               (w\<lparr>script := tl (script w)\<rparr>))
              \<lparr>log := log w @ [(XREADGROUP grp c key ''>'' b n, True)]\<rparr>"
      and r: "r = Inr (Some [(key, map render (d # ds))])"
      by simp_all
    have p': "pending_of key grp w' = pending g @ map (\<lambda>e. (fst e, c)) (d # ds)"
      unfolding w' by (simp add: pending_of_def put_group_def)
    have rep: "rep = Some [(key, map render (d # ds))]" using r Inr by simp
    have p: "pending_of key grp w = pending g" using st g by (simp add: pending_of_def)
    have sub: "set (pending_for key grp c w) \<subseteq> set (pending_for key grp c w')"
      unfolding pending_for_def p p' by auto
    have "id_text (fst d) \<in> set (pending_for key grp c w')"
      unfolding pending_for_def p' by simp
    with sub rep Inr show ?thesis by (simp add: render_def)
  qed
qed

lemma consume_new_spec:
  assumes "consume_new s im w1 = (im2, w2)"
  shows "(truthy (snd im) \<longrightarrow> im2 = im \<and> w2 = w1) \<and>
         (\<not> truthy (snd im) \<longrightarrow>
            (\<exists>ok. log w2 = log w1 @
               [(XREADGROUP (consumerGroup s) (consumerId s) (streamName s) ''>'' 2000 1, ok)])) \<and>
         set (pending_for (streamName s) (consumerGroup s) (consumerId s) w1)
           \<subseteq> set (pending_for (streamName s) (consumerGroup s) (consumerId s) w2) \<and>
         (fst im2 = fst im \<or>
          (\<exists>i. fst im2 = Some i \<and>
             i \<in> set (pending_for (streamName s) (consumerGroup s) (consumerId s) w2)))"
proof (cases "truthy (snd im)")
  case True
  with assms have "im2 = im" "w2 = w1" by (simp_all add: consume_new_def)
  with True show ?thesis by simp
next
  case False
  obtain r w0 where c: "client_XREADGROUP (consumerGroup s) (consumerId s) (streamName s) ''>'' 2000 1 w1
      = (r, w0)"
    by (cases "client_XREADGROUP (consumerGroup s) (consumerId s) (streamName s) ''>'' 2000 1 w1")
  from assms False c have w2: "streams w2 = streams w0" "log w2 = log w0"
    by (auto simp: consume_new_def split: sum.splits option.splits list.splits prod.splits)
  have l: "\<exists>ok. log w2 = log w1 @
               [(XREADGROUP (consumerGroup s) (consumerId s) (streamName s) ''>'' 2000 1, ok)]"
    using XREADGROUP_frame[OF c] w2 by simp
  have i: "fst im2 = fst im \<or>
          (\<exists>name m ms rs. r = Inr (Some ((name, m # ms) # rs)) \<and> fst im2 = Some (fst m))"
    using assms False c
    by (auto simp: consume_new_def split: sum.splits option.splits list.splits prod.splits)
  from XREADGROUP_pending[OF c] w2(1) i l False show ?thesis
    by (auto simp: pending_for_cong[OF w2(1)])
qed

text \<open>
  When the failed message has a truthy payload the second block does nothing: the entry
  that \<^verbatim>\<open>getFailedMessage\<close> yielded is the one returned, and no group read is made.
\<close>

lemma truthy_failed_message_used:
  assumes "getFailedMessage s w = (Inr (i, m), w1)" and "truthy m"
  shows "consume_failed s w = ((i, m), w1) \<and> consume_new s (i, m) w1 = ((i, m), w1) \<and>
         fst (consumeMessage s w) = Inr (i, m)"
  using assms
  by (simp add: consumeMessage_def consume_failed_def consume_new_def split: prod.splits)

subsection \<open>Failures inside consumeMessage\<close>

lemma consumeMessage_returns: "\<exists>r. fst (consumeMessage s w) = Inr r"
  by (simp add: consumeMessage_def split: prod.splits)

lemma deleteProcessedMessages_names:
  "streamName (fst (snd (deleteProcessedMessages s w))) = streamName s \<and>
   consumerGroup (fst (snd (deleteProcessedMessages s w))) = consumerGroup s \<and>
   consumerId (fst (snd (deleteProcessedMessages s w))) = consumerId s"
  by (auto simp: deleteProcessedMessages_def split: prod.splits sum.splits if_splits)

lemma disconnect_flush_names:
  "streamName (fst (disconnect_flush s w)) = streamName s"
proof -
  obtain r s' w' where d: "deleteProcessedMessages s w = (r, s', w')"
    by (cases "deleteProcessedMessages s w")
  with deleteProcessedMessages_names[of s w] have "streamName s' = streamName s" by simp
  with d show ?thesis by (cases r) (simp_all add: disconnect_flush_def)
qed

text \<open>
  C1, as the claim states it, fails: \<^verbatim>\<open>consumeMessage\<close> returns normally when the
  transport fails the blocking group read (first world: nothing pending, the second call
  fails), and when it fails the acknowledgment (second world: one entry to read, the
  third call fails). The error is printed, not thrown.
\<close>

theorem consumeMessage_swallows_failures:
  "fst (client_XREADGROUP ''jobs:consumer:group'' ''0'' ''stream:jobs'' ''>'' 2000 1
          (snd (consume_failed jobs (jobs_world [] 0 [] [None, Some socket_closed]))))
     = Inl socket_closed \<and>
   fst (consumeMessage jobs (jobs_world [] 0 [] [None, Some socket_closed]))
     = Inr (None, JUndefined) \<and>
   console (snd (snd (consumeMessage jobs (jobs_world [] 0 [] [None, Some socket_closed]))))
     = [socket_closed] \<and>
   log (snd (snd (consumeMessage jobs (jobs_world (backlog 1) 0 [] [None, None, Some socket_closed]))))
     = [(XAUTOCLAIM ''stream:jobs'' ''jobs:consumer:group'' ''0'' 0 ''0'' 1, True),
        (XREADGROUP ''jobs:consumer:group'' ''0'' ''stream:jobs'' ''>'' 2000 1, True),
        (XACK ''stream:jobs'' ''jobs:consumer:group'' ''1-0'', False)] \<and>
   fst (consumeMessage jobs (jobs_world (backlog 1) 0 [] [None, None, Some socket_closed]))
     = Inr (Some ''1-0'', JStr ''job'') \<and>
   console (snd (snd (consumeMessage jobs
     (jobs_world (backlog 1) 0 [] [None, None, Some socket_closed])))) = [socket_closed]"
proof -
  have b1: "backlog (Suc 0) = [(Suc 0, [(''data'', Doc (JsonStr ''job''))])]"
    by (simp add: backlog_def)
  have a: "fst (client_XREADGROUP ''jobs:consumer:group'' ''0'' ''stream:jobs'' ''>'' 2000 1
          (snd (consume_failed jobs (jobs_world [] 0 [] [None, Some socket_closed]))))
     = Inl socket_closed"
    by (simp add: consume_defs)
  have b: "fst (consumeMessage jobs (jobs_world [] 0 [] [None, Some socket_closed]))
     = Inr (None, JUndefined)"
    by (simp add: consume_defs)
  have c: "console (snd (snd (consumeMessage jobs (jobs_world [] 0 [] [None, Some socket_closed]))))
     = [socket_closed]"
    by (simp add: consume_defs)
  have d: "log (snd (snd (consumeMessage jobs (jobs_world (backlog 1) 0 [] [None, None, Some socket_closed]))))
     = [(XAUTOCLAIM ''stream:jobs'' ''jobs:consumer:group'' ''0'' 0 ''0'' 1, True),
        (XREADGROUP ''jobs:consumer:group'' ''0'' ''stream:jobs'' ''>'' 2000 1, True),
        (XACK ''stream:jobs'' ''jobs:consumer:group'' ''1-0'', False)]"
    by (simp add: b1 consume_defs id_text_1)
  have e: "fst (consumeMessage jobs (jobs_world (backlog 1) 0 [] [None, None, Some socket_closed]))
     = Inr (Some ''1-0'', JStr ''job'')"
    by (simp add: b1 consume_defs id_text_1)
  have f: "console (snd (snd (consumeMessage jobs
     (jobs_world (backlog 1) 0 [] [None, None, Some socket_closed])))) = [socket_closed]"
    by (simp add: b1 consume_defs id_text_1)
  from a b c d e f show ?thesis by blast
qed

text \<open>
  C1, amended. Every store-facing operation other than \<^verbatim>\<open>getFailedMessage\<close>,
  \<^verbatim>\<open>consumeMessage\<close> and the flush inside \<^verbatim>\<open>disconnect\<close> throws its own error when
  its client call fails (\<^verbatim>\<open>connect\<close>: when the failure's message is not the one of an
  existing group); \<^verbatim>\<open>consumeMessage\<close> never throws.
\<close>

theorem failures_wrapped_or_swallowed:
  "(fst (client_connect w) = Inl e \<longrightarrow> fst (queue_connect q w) = Inl QueueConnectionError) \<and>
   (fst (client_disconnect w) = Inl e \<longrightarrow>
      fst (queue_disconnect q w) = Inl QueueDisconnectError) \<and>
   (fst (client_RPUSH (queueName q) (JSON_stringify v) w) = Inl e \<longrightarrow>
      fst (push q v w) = Inl (QueueWriteError q)) \<and>
   (fst (client_LPOP (queueName q) w) = Inl e \<longrightarrow> fst (pop q w) = Inl (QueueReadError q)) \<and>
   (fst (client_LLEN (queueName q) w) = Inl e \<longrightarrow>
      fst (size_queue q w) = Inl (QueueQueryError q)) \<and>
   (fst (client_connect w) = Inl e \<and>
    err_message e \<noteq> ''BUSYGROUP Consumer Group name already exists'' \<longrightarrow>
      fst (connect s w) = Inl (StreamConnectError s)) \<and>
   (fst (client_connect w) = Inr () \<and>
    fst (client_XGROUP_CREATE (streamName s) (consumerGroup s) ''$'' True (snd (client_connect w)))
      = Inl e \<and>
    err_message e \<noteq> ''BUSYGROUP Consumer Group name already exists'' \<longrightarrow>
      fst (connect s w) = Inl (StreamConnectError s)) \<and>
   (fst (client_disconnect (snd (disconnect_flush s w))) = Inl e \<longrightarrow>
      fst (disconnect s w) = Inl (StreamDisconnectError s)) \<and>
   (fst (client_XADD (streamName s) ''*'' (JSON_stringify v) w) = Inl e \<longrightarrow>
      fst (addMessage s v w) = Inl (StreamWriteError s)) \<and>
   (processedMessageIds s \<noteq> [] \<and>
    fst (client_XDEL (streamName s) (processedMessageIds s) w) = Inl e \<longrightarrow>
      fst (deleteProcessedMessages s w) = Inl (StreamPurgeError s)) \<and>
   (fst (client_XLEN (streamName s) w) = Inl e \<longrightarrow>
      fst (length_stream s w) = Inl (StreamQueryError s)) \<and>
   (\<exists>r. fst (consumeMessage s w) = Inr r)"
proof -
  have 1: "fst (client_connect w) = Inl e \<longrightarrow> fst (queue_connect q w) = Inl QueueConnectionError"
    by (simp add: queue_connect_def split: prod.splits sum.splits)
  have 2: "fst (client_disconnect w) = Inl e \<longrightarrow>
      fst (queue_disconnect q w) = Inl QueueDisconnectError"
    by (simp add: queue_disconnect_def split: prod.splits sum.splits)
  have 3: "fst (client_RPUSH (queueName q) (JSON_stringify v) w) = Inl e \<longrightarrow>
      fst (push q v w) = Inl (QueueWriteError q)"
    by (simp add: push_def split: prod.splits sum.splits)
  have 4: "fst (client_LPOP (queueName q) w) = Inl e \<longrightarrow> fst (pop q w) = Inl (QueueReadError q)"
    by (simp add: pop_def split: prod.splits sum.splits)
  have 5: "fst (client_LLEN (queueName q) w) = Inl e \<longrightarrow>
      fst (size_queue q w) = Inl (QueueQueryError q)"
    by (simp add: size_queue_def split: prod.splits sum.splits)
  have 67: "(fst (client_connect w) = Inl e \<and>
    err_message e \<noteq> ''BUSYGROUP Consumer Group name already exists'' \<longrightarrow>
      fst (connect s w) = Inl (StreamConnectError s)) \<and>
   (fst (client_connect w) = Inr () \<and>
    fst (client_XGROUP_CREATE (streamName s) (consumerGroup s) ''$'' True (snd (client_connect w)))
      = Inl e \<and>
    err_message e \<noteq> ''BUSYGROUP Consumer Group name already exists'' \<longrightarrow>
      fst (connect s w) = Inl (StreamConnectError s))"
    by (simp add: connect_def connect_catch_def split: prod.splits sum.splits)
  have 8: "fst (client_disconnect (snd (disconnect_flush s w))) = Inl e \<longrightarrow>
      fst (disconnect s w) = Inl (StreamDisconnectError s)"
  proof
    assume f: "fst (client_disconnect (snd (disconnect_flush s w))) = Inl e"
    obtain s1 w1 where d: "disconnect_flush s w = (s1, w1)" by (cases "disconnect_flush s w")
    obtain r2 w2 where c: "client_disconnect w1 = (r2, w2)" by (cases "client_disconnect w1")
    from f d c have "r2 = Inl e" by simp
    moreover have "streamName s1 = streamName s" using disconnect_flush_names[of s w] d by simp
    ultimately show "fst (disconnect s w) = Inl (StreamDisconnectError s)"
      using d c by (simp add: disconnect_def StreamDisconnectError_def)
  qed
  have 9: "fst (client_XADD (streamName s) ''*'' (JSON_stringify v) w) = Inl e \<longrightarrow>
      fst (addMessage s v w) = Inl (StreamWriteError s)"
    by (simp add: addMessage_def split: prod.splits sum.splits)
  have 10: "processedMessageIds s \<noteq> [] \<and>
    fst (client_XDEL (streamName s) (processedMessageIds s) w) = Inl e \<longrightarrow>
      fst (deleteProcessedMessages s w) = Inl (StreamPurgeError s)"
    by (simp add: deleteProcessedMessages_def split: prod.splits sum.splits)
  have 11: "fst (client_XLEN (streamName s) w) = Inl e \<longrightarrow>
      fst (length_stream s w) = Inl (StreamQueryError s)"
    by (simp add: length_stream_def split: prod.splits sum.splits)
  from 1 2 3 4 5 67 8 9 10 11 consumeMessage_returns[of s w] show ?thesis by blast
qed

lemma call_fault_fst: "next_fault w = Some e \<Longrightarrow> fst (call cmd srv w) = Inl e"
  by (simp add: call_fault)

theorem failures_wrapped_or_swallowed_witness:
  "next_fault (empty_world\<lparr>script := [Some socket_closed]\<rparr>) = Some socket_closed \<and>
   fst (queue_connect jobs_queue (empty_world\<lparr>script := [Some socket_closed]\<rparr>))
     = Inl QueueConnectionError \<and>
   fst (queue_disconnect jobs_queue (empty_world\<lparr>script := [Some socket_closed]\<rparr>))
     = Inl QueueDisconnectError \<and>
   fst (push jobs_queue JNull (empty_world\<lparr>script := [Some socket_closed]\<rparr>))
     = Inl (QueueWriteError jobs_queue) \<and>
   fst (pop jobs_queue (empty_world\<lparr>script := [Some socket_closed]\<rparr>))
     = Inl (QueueReadError jobs_queue) \<and>
   fst (size_queue jobs_queue (empty_world\<lparr>script := [Some socket_closed]\<rparr>))
     = Inl (QueueQueryError jobs_queue) \<and>
   fst (connect (jobs\<lparr>processedMessageIds := [''1-0'']\<rparr>)
          (empty_world\<lparr>script := [Some socket_closed]\<rparr>))
     = Inl (StreamConnectError (jobs\<lparr>processedMessageIds := [''1-0'']\<rparr>)) \<and>
   fst (connect (jobs\<lparr>processedMessageIds := [''1-0'']\<rparr>)
          (empty_world\<lparr>script := [None, Some socket_closed]\<rparr>))
     = Inl (StreamConnectError (jobs\<lparr>processedMessageIds := [''1-0'']\<rparr>)) \<and>
   fst (disconnect (jobs\<lparr>processedMessageIds := [''1-0'']\<rparr>)
          (empty_world\<lparr>script := [None, Some socket_closed]\<rparr>))
     = Inl (StreamDisconnectError (jobs\<lparr>processedMessageIds := [''1-0'']\<rparr>)) \<and>
   fst (addMessage (jobs\<lparr>processedMessageIds := [''1-0'']\<rparr>) JNull
          (empty_world\<lparr>script := [Some socket_closed]\<rparr>))
     = Inl (StreamWriteError (jobs\<lparr>processedMessageIds := [''1-0'']\<rparr>)) \<and>
   fst (deleteProcessedMessages (jobs\<lparr>processedMessageIds := [''1-0'']\<rparr>)
          (empty_world\<lparr>script := [Some socket_closed]\<rparr>))
     = Inl (StreamPurgeError (jobs\<lparr>processedMessageIds := [''1-0'']\<rparr>)) \<and>
   fst (length_stream (jobs\<lparr>processedMessageIds := [''1-0'']\<rparr>)
          (empty_world\<lparr>script := [Some socket_closed]\<rparr>))
     = Inl (StreamQueryError (jobs\<lparr>processedMessageIds := [''1-0'']\<rparr>))"
proof -
  let ?w1 = "empty_world\<lparr>script := [Some socket_closed]\<rparr>"
  let ?w2 = "empty_world\<lparr>script := [None, Some socket_closed]\<rparr>"
  let ?s = "jobs\<lparr>processedMessageIds := [''1-0'']\<rparr>"
  let ?busy = "''BUSYGROUP Consumer Group name already exists''"
  have nf: "next_fault ?w1 = Some socket_closed" by (simp add: next_fault_def)
  have m: "err_message socket_closed \<noteq> ?busy" by (simp add: socket_closed_def)
  have buf: "processedMessageIds ?s \<noteq> []" by simp
  have h1: "fst (client_connect ?w1) = Inl socket_closed"
    "fst (client_disconnect ?w1) = Inl socket_closed"
    "fst (client_RPUSH (queueName jobs_queue) (JSON_stringify JNull) ?w1) = Inl socket_closed"
    "fst (client_LPOP (queueName jobs_queue) ?w1) = Inl socket_closed"
    "fst (client_LLEN (queueName jobs_queue) ?w1) = Inl socket_closed"
    "fst (client_XADD (streamName ?s) ''*'' (JSON_stringify JNull) ?w1) = Inl socket_closed"
    "fst (client_XDEL (streamName ?s) (processedMessageIds ?s) ?w1) = Inl socket_closed"
    "fst (client_XLEN (streamName ?s) ?w1) = Inl socket_closed"
    unfolding client_connect_def client_disconnect_def client_RPUSH_def client_LPOP_def
      client_LLEN_def client_XADD_def client_XDEL_def client_XLEN_def
    by (rule call_fault_fst[OF nf])+
  have h2: "fst (client_connect ?w2) = Inr ()"
    "fst (client_XGROUP_CREATE (streamName ?s) (consumerGroup ?s) ''$'' True
       (snd (client_connect ?w2))) = Inl socket_closed"
    by (simp_all add: client_connect_def client_XGROUP_CREATE_def call_def next_fault_def)
  have h3: "fst (client_disconnect (snd (disconnect_flush ?s ?w2))) = Inl socket_closed"
    by (simp add: disconnect_flush_def deleteProcessedMessages_def client_XDEL_def
        client_disconnect_def call_def next_fault_def empty_world_def put_stream_def)
  note A = failures_wrapped_or_swallowed [of ?w1 socket_closed jobs_queue JNull ?s]
  note B = failures_wrapped_or_swallowed [of ?w2 socket_closed jobs_queue JNull ?s]
  from A h1 m buf have a:
    "fst (queue_connect jobs_queue ?w1) = Inl QueueConnectionError"
    "fst (queue_disconnect jobs_queue ?w1) = Inl QueueDisconnectError"
    "fst (push jobs_queue JNull ?w1) = Inl (QueueWriteError jobs_queue)"
    "fst (pop jobs_queue ?w1) = Inl (QueueReadError jobs_queue)"
    "fst (size_queue jobs_queue ?w1) = Inl (QueueQueryError jobs_queue)"
    "fst (connect ?s ?w1) = Inl (StreamConnectError ?s)"
    "fst (addMessage ?s JNull ?w1) = Inl (StreamWriteError ?s)"
    "fst (deleteProcessedMessages ?s ?w1) = Inl (StreamPurgeError ?s)"
    "fst (length_stream ?s ?w1) = Inl (StreamQueryError ?s)"
    by blast+
  from B h2 h3 m have b:
    "fst (connect ?s ?w2) = Inl (StreamConnectError ?s)"
    "fst (disconnect ?s ?w2) = Inl (StreamDisconnectError ?s)"
    by blast+
  from nf a b show ?thesis by blast
qed

subsection \<open>A failed acknowledgment\<close>

lemma autoclaim_oldest:
  "fst (autoclaim (Suc 0) es c ps) =
     (case filter (\<lambda>p. map_of es (fst p) \<noteq> None) ps of
        [] \<Rightarrow> []
      | p # qs \<Rightarrow> [(fst p, the (map_of es (fst p)))])"
proof (induction ps)
  case Nil
  show ?case by simp
next
  case (Cons p ps)
  obtain i owner where p: "p = (i, owner)" by (cases p)
  show ?case
  proof (cases "map_of es i")
    case None
    with Cons p show ?thesis by simp
  next
    case (Some fs)
    with p show ?thesis by simp
  qed
qed

lemma getFailedMessage_oldest:
  assumes nf: "next_fault w = None"
    and o: "oldest_pending (streamName s) (consumerGroup s) w = Some m"
    and v: "JSON_parse (data_of m) = Inr v"
  shows "fst (getFailedMessage s w) = Inr (Some (fst m), v)"
proof -
  let ?K = "streamName s" and ?G = "consumerGroup s" and ?C = "consumerId s"
  from o obtain st where st: "streams w ?K = Some st"
    by (auto simp: oldest_pending_def split: option.splits)
  let ?live = "filter (\<lambda>p. map_of (entries st) (fst p) \<noteq> None) (pending_of ?K ?G w)"
  from o st obtain p qs where l: "?live = p # qs"
    and m: "m = (id_text (fst p), the (map_of (entries st) (fst p)))"
    by (auto simp: oldest_pending_def split: list.splits)
  from l have "pending_of ?K ?G w \<noteq> []" by auto
  with st obtain g where g: "groups st ?G = Some g" and pg: "pending_of ?K ?G w = pending g"
    by (auto simp: pending_of_def split: option.splits)
  obtain claimed scanned rest where
    a: "autoclaim (Suc 0) (entries st) ?C (pending g) = (claimed, scanned, rest)"
    by (cases "autoclaim (Suc 0) (entries st) ?C (pending g)")
  have "claimed = [(fst p, the (map_of (entries st) (fst p)))]"
    using autoclaim_oldest[of "entries st" ?C "pending g"] a l pg by simp
  then have r: "map render claimed = [m]" using m by (simp add: render_def)
  have "fst (client_XAUTOCLAIM ?K ?G ?C 0 ''0'' 1 w)
      = Inr (Some (case rest of [] \<Rightarrow> ''0-0'' | p # ps \<Rightarrow> id_text (fst p), [m]))"
    using nf st g a r by (simp add: client_XAUTOCLAIM_def call_def)
  then obtain w' where "client_XAUTOCLAIM ?K ?G ?C 0 ''0'' 1 w
      = (Inr (Some (case rest of [] \<Rightarrow> ''0-0'' | p # ps \<Rightarrow> id_text (fst p), [m])), w')"
    by (cases "client_XAUTOCLAIM ?K ?G ?C 0 ''0'' 1 w") auto
  then show ?thesis using v
    by (simp add: getFailedMessage_def)
qed

text \<open>
  C10. When the read blocks of \<^verbatim>\<open>consumeMessage\<close> end with an ID \<open>i\<close> and the
  acknowledgment of \<open>i\<close> fails with \<open>e\<close>, the method prints \<open>e\<close> and returns the pair
  \<^verbatim>\<open>{id, message}\<close>; the instance, and so the buffer, is as before; the failed call
  leaves the streams as they were and \<open>i\<close> is pending for this consumer. A later
  \<^verbatim>\<open>getFailedMessage\<close> returns the entry again once it is the oldest pending entry of
  the group (and its payload parses).
\<close>

theorem ack_failure_swallowed:
  assumes "consume_new s (fst (consume_failed s w)) (snd (consume_failed s w)) = ((Some i, m), w2)"
    and "i \<noteq> []"
    and "client_XACK (streamName s) (consumerGroup s) i w2 = (Inl e, w3)"
  shows "consumeMessage s w = (Inr (Some i, m), s, console_error e w3) \<and>
         console (console_error e w3) = console w2 @ [e] \<and>
         streams (console_error e w3) = streams w2 \<and>
         i \<in> set (pending_for (streamName s) (consumerGroup s) (consumerId s)
                    (console_error e w3)) \<and>
         (\<forall>mm v. next_fault (console_error e w3) = None \<and>
                 oldest_pending (streamName s) (consumerGroup s) (console_error e w3) = Some mm \<and>
                 fst mm = i \<and> JSON_parse (data_of mm) = Inr v \<longrightarrow>
                 fst (getFailedMessage s (console_error e w3)) = Inr (Some i, v))"
proof -
  let ?K = "streamName s" and ?G = "consumerGroup s" and ?C = "consumerId s"
  obtain im1 w1 where f: "consume_failed s w = (im1, w1)" by (cases "consume_failed s w")
  with assms(1) have n: "consume_new s im1 w1 = ((Some i, m), w2)" by simp
  have 1: "consumeMessage s w = (Inr (Some i, m), s, console_error e w3)"
    using f n assms(2,3) by (simp add: consumeMessage_def consume_ack_def)
  have 2: "console (console_error e w3) = console w2 @ [e]"
    using XACK_frame[OF assms(3)] by simp
  have 3: "streams (console_error e w3) = streams w2"
    using XACK_failed[OF assms(3)] by simp
  have "i \<in> set (pending_for ?K ?G ?C w2)"
    using consume_failed_spec[OF f] consume_new_spec[OF n] by auto
  then have 4: "i \<in> set (pending_for ?K ?G ?C (console_error e w3))"
    using pending_for_cong[OF 3] by simp
  have 5: "fst (getFailedMessage s (console_error e w3)) = Inr (Some i, v)"
    if "next_fault (console_error e w3) = None"
      "oldest_pending ?K ?G (console_error e w3) = Some mm" "fst mm = i"
      "JSON_parse (data_of mm) = Inr v" for mm v
    using getFailedMessage_oldest[OF that(1,2,4)] that(3) by simp
  from 1 2 3 4 5 show ?thesis by blast
qed

theorem ack_failure_swallowed_witness:
  "fst (consumeMessage jobs (jobs_world (backlog 1) 0 [] [None, None, Some socket_closed]))
     = Inr (Some ''1-0'', JStr ''job'') \<and>
   fst (snd (consumeMessage jobs (jobs_world (backlog 1) 0 [] [None, None, Some socket_closed])))
     = jobs \<and>
   console (snd (snd (consumeMessage jobs
       (jobs_world (backlog 1) 0 [] [None, None, Some socket_closed])))) = [socket_closed] \<and>
   ''1-0'' \<in> set (pending_for ''stream:jobs'' ''jobs:consumer:group'' ''0''
       (snd (snd (consumeMessage jobs
          (jobs_world (backlog 1) 0 [] [None, None, Some socket_closed]))))) \<and>
   fst (getFailedMessage jobs (snd (snd (consumeMessage jobs
       (jobs_world (backlog 1) 0 [] [None, None, Some socket_closed])))))
     = Inr (Some ''1-0'', JStr ''job'')"
proof -
  let ?w = "jobs_world (backlog 1) 0 [] [None, None, Some socket_closed]"
  let ?x = "consume_new jobs (fst (consume_failed jobs ?w)) (snd (consume_failed jobs ?w))"
  let ?a = "client_XACK ''stream:jobs'' ''jobs:consumer:group'' ''1-0'' (snd ?x)"
  let ?w' = "console_error socket_closed (snd ?a)"
  let ?m = "(''1-0'', [(''data'', Doc (JsonStr ''job''))])"
  have b1: "backlog (Suc 0) = [(Suc 0, [(''data'', Doc (JsonStr ''job''))])]"
    by (simp add: backlog_def)
  have x: "fst ?x = (Some ''1-0'', JStr ''job'')"
    by (simp add: b1 consume_defs id_text_1)
  then have h1: "?x = ((Some ''1-0'', JStr ''job''), snd ?x)" by (simp add: prod_eq_iff)
  have h2: "''1-0'' \<noteq> ([] :: string)" by simp
  have "fst ?a = Inl socket_closed"
    by (simp add: b1 consume_defs id_text_1)
  then have h3: "client_XACK (streamName jobs) (consumerGroup jobs) ''1-0'' (snd ?x)
      = (Inl socket_closed, snd ?a)"
    by (simp add: prod_eq_iff)
  have n: "next_fault ?w' = None"
    by (simp add: b1 consume_defs id_text_1)
  have o: "oldest_pending (streamName jobs) (consumerGroup jobs) ?w' = Some ?m"
    by (simp add: oldest_pending_def pending_of_def b1 consume_defs id_text_1)
  have p: "JSON_parse (data_of ?m) = Inr (JStr ''job'')"
    by (simp add: data_of_def)
  have c: "console (snd ?x) = []"
    by (simp add: b1 consume_defs id_text_1)
  note T = ack_failure_swallowed [of jobs ?w "''1-0''" "JStr ''job''" "snd ?x" socket_closed "snd ?a",
      OF h1 h2 h3]
  from T have 1: "consumeMessage jobs ?w = (Inr (Some ''1-0'', JStr ''job''), jobs, ?w')"
    by blast
  from T c have 2: "console ?w' = [socket_closed]" by simp
  from T have 3: "''1-0'' \<in> set (pending_for ''stream:jobs'' ''jobs:consumer:group'' ''0'' ?w')"
    by simp
  from T n o p have 4: "fst (getFailedMessage jobs ?w') = Inr (Some ''1-0'', JStr ''job'')"
    by (metis fst_conv)
  from 1 2 3 4 show ?thesis by simp
qed


section \<open>The processed-ID buffer\<close>

lemma acked_append [simp]: "acked key grp (xs @ ys) = acked key grp xs @ acked key grp ys"
  by (simp add: acked_def)

lemma purges_append [simp]: "purges key (xs @ ys) = purges key xs @ purges key ys"
  by (simp add: purges_def)

lemma acked_Nil [simp]: "acked key grp [] = []"
  by (simp add: acked_def)

lemma purges_Nil [simp]: "purges key [] = []"
  by (simp add: purges_def)

lemma acked_single: "acked key grp [x] = ack_of key grp x"
  by (simp add: acked_def)

lemma purges_single: "purges key [x] = purge_of key x"
  by (simp add: purges_def)

text \<open>
  What the third block does to the buffer and to the history: nothing is acknowledged
  and the buffer stays; or one ID is acknowledged and joins the buffer, and when that
  takes the buffer over the mark one bulk delete of the whole buffer follows at once,
  emptying the buffer exactly when it succeeds.
\<close>

lemma consume_ack_effect:
  assumes "consume_ack s i w2 = (s3, w3)"
  shows "streamName s3 = streamName s \<and> consumerGroup s3 = consumerGroup s \<and>
         consumerId s3 = consumerId s \<and>
         (\<exists>xs. log w3 = log w2 @ xs \<and>
           ((processedMessageIds s3 = processedMessageIds s \<and>
             acked (streamName s) (consumerGroup s) xs = [] \<and> purges (streamName s) xs = []) \<or>
            (\<exists>j. i = Some j \<and>
               length (set_add (processedMessageIds s) j) \<le> MAX_PROCESSED_IDS \<and>
               xs = [(XACK (streamName s) (consumerGroup s) j, True)] \<and>
               processedMessageIds s3 = set_add (processedMessageIds s) j) \<or>
            (\<exists>j ok. i = Some j \<and>
               length (set_add (processedMessageIds s) j) > MAX_PROCESSED_IDS \<and>
               xs = [(XACK (streamName s) (consumerGroup s) j, True),
                     (XDEL (streamName s) (set_add (processedMessageIds s) j), ok)] \<and>
               processedMessageIds s3 = (if ok then [] else set_add (processedMessageIds s) j))))"
proof -
  let ?K = "streamName s" and ?G = "consumerGroup s" and ?B = "processedMessageIds s"
  consider
    (none) "s3 = s" "w3 = w2"
    | (failed) j e w' where "i = Some j" "client_XACK ?K ?G j w2 = (Inl e, w')"
        "s3 = s" "w3 = console_error e w'"
    | (below) j n w' where "i = Some j" "client_XACK ?K ?G j w2 = (Inr n, w')"
        "\<not> length (set_add ?B j) > MAX_PROCESSED_IDS"
        "s3 = s\<lparr>processedMessageIds := set_add ?B j\<rparr>" "w3 = w'"
    | (purged) j n w' r where "i = Some j" "client_XACK ?K ?G j w2 = (Inr n, w')"
        "length (set_add ?B j) > MAX_PROCESSED_IDS"
        "deleteProcessedMessages (s\<lparr>processedMessageIds := set_add ?B j\<rparr>) w' = (r, s3, w3)"
        "\<not> isl r"
    | (kept) j n w' e wd where "i = Some j" "client_XACK ?K ?G j w2 = (Inr n, w')"
        "length (set_add ?B j) > MAX_PROCESSED_IDS"
        "deleteProcessedMessages (s\<lparr>processedMessageIds := set_add ?B j\<rparr>) w' = (Inl e, s3, wd)"
        "w3 = console_error e wd"
  proof (cases i)
    case None
    with assms have "s3 = s" "w3 = w2" by (simp_all add: consume_ack_def)
    then show ?thesis by (rule none)
  next
    case (Some j)
    show ?thesis
    proof (cases "j = []")
      case True
      with assms Some have "s3 = s" "w3 = w2" by (simp_all add: consume_ack_def)
      then show ?thesis by (rule none)
    next
      case False
      obtain ra w' where a: "client_XACK ?K ?G j w2 = (ra, w')"
        by (cases "client_XACK ?K ?G j w2")
      show ?thesis
      proof (cases ra)
        case (Inl e)
        with assms Some False a have "s3 = s" "w3 = console_error e w'"
          by (simp_all add: consume_ack_def)
        with Some a Inl show ?thesis by (intro failed) simp_all
      next
        case (Inr n)
        let ?s1 = "s\<lparr>processedMessageIds := set_add ?B j\<rparr>"
        show ?thesis
        proof (cases "length (set_add ?B j) > MAX_PROCESSED_IDS")
          case f: False
          with assms Some False a Inr have "s3 = ?s1" "w3 = w'"
            by (simp_all add: consume_ack_def)
          with Some a Inr f show ?thesis by (intro below) simp_all
        next
          case t: True
          obtain rd sd wd where d: "deleteProcessedMessages ?s1 w' = (rd, sd, wd)"
            by (cases "deleteProcessedMessages ?s1 w'")
          show ?thesis
          proof (cases rd)
            case l: (Inl e)
            with assms Some False a Inr t d have "s3 = sd" "w3 = console_error e wd"
              by (simp_all add: consume_ack_def)
            with Some a Inr t d l show ?thesis by (intro kept) simp_all
          next
            case r: (Inr u)
            with assms Some False a Inr t d have "s3 = sd" "w3 = wd"
              by (simp_all add: consume_ack_def)
            with Some a Inr t d r show ?thesis by (intro purged[where r=rd]) simp_all
          qed
        qed
      qed
    qed
  qed
  then show ?thesis
  proof cases
    case none
    then show ?thesis by simp
  next
    case failed
    from XACK_frame[OF failed(2)] failed(4)
    have "log w3 = log w2 @ [(XACK ?K ?G j, False)]" by simp
    moreover have "acked ?K ?G [(XACK ?K ?G j, False)] = []"
      "purges ?K [(XACK ?K ?G j, False)] = []"
      by (simp_all add: acked_single purges_single)
    ultimately show ?thesis using failed(3) by blast
  next
    case below
    from XACK_frame[OF below(2)] below(5)
    have "log w3 = log w2 @ [(XACK ?K ?G j, True)]" by simp
    with below show ?thesis by auto
  next
    case purged
    let ?s1 = "s\<lparr>processedMessageIds := set_add ?B j\<rparr>"
    have ne: "processedMessageIds ?s1 \<noteq> []" using purged(3) by auto
    from deleteProcessedMessages_cases[OF purged(4)] ne purged(5) obtain m where
      d: "client_XDEL ?K (set_add ?B j) w' = (Inr m, w3)" and s3: "s3 = ?s1\<lparr>processedMessageIds := []\<rparr>"
      by auto
    from XACK_frame[OF purged(2)] XDEL_frame[OF d]
    have "log w3 = log w2 @ [(XACK ?K ?G j, True), (XDEL ?K (set_add ?B j), True)]" by simp
    with purged(1,3) s3 show ?thesis by auto
  next
    case kept
    let ?s1 = "s\<lparr>processedMessageIds := set_add ?B j\<rparr>"
    have ne: "processedMessageIds ?s1 \<noteq> []" using kept(3) by auto
    from deleteProcessedMessages_cases[OF kept(4)] ne obtain e' w1 where
      d: "client_XDEL ?K (set_add ?B j) w' = (Inl e', w1)" and s3: "s3 = ?s1"
      and wd: "wd = console_error e' w1"
      by auto
    from XACK_frame[OF kept(2)] XDEL_frame[OF d] wd kept(5)
    have "log w3 = log w2 @ [(XACK ?K ?G j, True), (XDEL ?K (set_add ?B j), False)]" by simp
    with kept(1,3) s3 show ?thesis by auto
  qed
qed

lemma consume_reads_log:
  assumes "consume_failed s w = (im1, w1)" and "consume_new s im1 w1 = (im2, w2)"
  shows "\<exists>pre. log w2 = log w @ pre \<and>
           acked (streamName s) (consumerGroup s) pre = [] \<and> purges (streamName s) pre = []"
proof -
  from consume_failed_spec[OF assms(1)] obtain ok1 where
    l1: "log w1 = log w @
           [(XAUTOCLAIM (streamName s) (consumerGroup s) (consumerId s) 0 ''0'' 1, ok1)]"
    by blast
  show ?thesis
  proof (cases "truthy (snd im1)")
    case True
    with consume_new_spec[OF assms(2)] have "w2 = w1" by simp
    with l1 show ?thesis by (auto simp: acked_single purges_single)
  next
    case False
    with consume_new_spec[OF assms(2)] obtain ok2 where
      "log w2 = log w1 @
         [(XREADGROUP (consumerGroup s) (consumerId s) (streamName s) ''>'' 2000 1, ok2)]"
      by blast
    with l1 have "log w2 = log w @
         [(XAUTOCLAIM (streamName s) (consumerGroup s) (consumerId s) 0 ''0'' 1, ok1),
          (XREADGROUP (consumerGroup s) (consumerId s) (streamName s) ''>'' 2000 1, ok2)]"
      by simp
    moreover have "acked (streamName s) (consumerGroup s)
         [(XAUTOCLAIM (streamName s) (consumerGroup s) (consumerId s) 0 ''0'' 1, ok1),
          (XREADGROUP (consumerGroup s) (consumerId s) (streamName s) ''>'' 2000 1, ok2)] = []"
      "purges (streamName s)
         [(XAUTOCLAIM (streamName s) (consumerGroup s) (consumerId s) 0 ''0'' 1, ok1),
          (XREADGROUP (consumerGroup s) (consumerId s) (streamName s) ''>'' 2000 1, ok2)] = []"
      by (simp_all add: acked_def purges_def)
    ultimately show ?thesis by blast
  qed
qed

text \<open>
  One call of \<^verbatim>\<open>consumeMessage\<close>: the calls of the two read blocks acknowledge and delete
  nothing, and the rest of the history is that of the third block.
\<close>

lemma consumeMessage_effect:
  assumes "consumeMessage s w = (r, s', w')"
  shows "streamName s' = streamName s \<and> consumerGroup s' = consumerGroup s \<and>
         consumerId s' = consumerId s \<and>
         (\<exists>pre xs. log w' = log w @ pre @ xs \<and>
           acked (streamName s) (consumerGroup s) pre = [] \<and> purges (streamName s) pre = [] \<and>
           ((processedMessageIds s' = processedMessageIds s \<and>
             acked (streamName s) (consumerGroup s) xs = [] \<and> purges (streamName s) xs = []) \<or>
            (\<exists>j. length (set_add (processedMessageIds s) j) \<le> MAX_PROCESSED_IDS \<and>
               xs = [(XACK (streamName s) (consumerGroup s) j, True)] \<and>
               processedMessageIds s' = set_add (processedMessageIds s) j) \<or>
            (\<exists>j ok. length (set_add (processedMessageIds s) j) > MAX_PROCESSED_IDS \<and>
               xs = [(XACK (streamName s) (consumerGroup s) j, True),
                     (XDEL (streamName s) (set_add (processedMessageIds s) j), ok)] \<and>
               processedMessageIds s' = (if ok then [] else set_add (processedMessageIds s) j))))"
proof -
  obtain im1 w1 where f: "consume_failed s w = (im1, w1)" by (cases "consume_failed s w")
  obtain im2 w2 where n: "consume_new s im1 w1 = (im2, w2)" by (cases "consume_new s im1 w1")
  obtain s3 w3 where a: "consume_ack s (fst im2) w2 = (s3, w3)"
    by (cases "consume_ack s (fst im2) w2")
  from assms f n a have e: "s' = s3" "w' = w3" by (simp_all add: consumeMessage_def)
  from consume_reads_log[OF f n] obtain pre where
    pre: "log w2 = log w @ pre" "acked (streamName s) (consumerGroup s) pre = []"
      "purges (streamName s) pre = []"
    by blast
  from consume_ack_effect[OF a] obtain xs where
    names: "streamName s3 = streamName s" "consumerGroup s3 = consumerGroup s"
      "consumerId s3 = consumerId s"
    and xs: "log w3 = log w2 @ xs"
      "(processedMessageIds s3 = processedMessageIds s \<and>
             acked (streamName s) (consumerGroup s) xs = [] \<and> purges (streamName s) xs = []) \<or>
            (\<exists>j. length (set_add (processedMessageIds s) j) \<le> MAX_PROCESSED_IDS \<and>
               xs = [(XACK (streamName s) (consumerGroup s) j, True)] \<and>
               processedMessageIds s3 = set_add (processedMessageIds s) j) \<or>
            (\<exists>j ok. length (set_add (processedMessageIds s) j) > MAX_PROCESSED_IDS \<and>
               xs = [(XACK (streamName s) (consumerGroup s) j, True),
                     (XDEL (streamName s) (set_add (processedMessageIds s) j), ok)] \<and>
               processedMessageIds s3 = (if ok then [] else set_add (processedMessageIds s) j))"
    by blast
  from pre(1) xs(1) have "log w' = log w @ pre @ xs" using e by simp
  with names pre(2,3) xs(2) e show ?thesis by blast
qed

lemma set_set_add [simp]: "set (set_add xs x) = insert x (set xs)"
  by (auto simp: set_add_def)

lemma connect_log: "\<exists>xs. log (snd (connect s w)) = log w @ xs"
proof -
  obtain r w' where c: "connect s w = (r, w')" by (cases "connect s w")
  have k: "log wb = log wa" if "connect_catch s e wa = (r, wb)" for e wa wb
    using that by (auto simp: connect_catch_def split: if_splits)
  from connect_cases[OF c] have "\<exists>xs. log w' = log w @ xs"
  proof (elim disjE exE conjE)
    fix e w1 assume "client_connect w = (Inl e, w1)" "connect_catch s e w1 = (r, w')"
    with connect_frame[of w "Inl e" w1] k[of e w1 w'] show ?thesis by simp
  next
    fix w1 e w2
    assume "client_connect w = (Inr (), w1)"
      "client_XGROUP_CREATE (streamName s) (consumerGroup s) ''$'' True w1 = (Inl e, w2)"
      "connect_catch s e w2 = (r, w')"
    with connect_frame[of w "Inr ()" w1]
      XGROUP_CREATE_frame[of "streamName s" "consumerGroup s" "''$''" True w1 "Inl e" w2]
      k[of e w2 w']
    show ?thesis by simp
  next
    fix w1
    assume "client_connect w = (Inr (), w1)"
      "client_XGROUP_CREATE (streamName s) (consumerGroup s) ''$'' True w1 = (Inr (), w')"
    with connect_frame[of w "Inr ()" w1]
      XGROUP_CREATE_frame[of "streamName s" "consumerGroup s" "''$''" True w1 "Inr ()" w']
    show ?thesis by simp
  qed
  with c show ?thesis by simp
qed

lemma addMessage_log: "\<exists>xs. log (snd (addMessage s v w)) = log w @ xs"
proof -
  obtain r w1 where c: "client_XADD (streamName s) ''*'' (JSON_stringify v) w = (r, w1)"
    by (cases "client_XADD (streamName s) ''*'' (JSON_stringify v) w")
  from XADD_frame[OF c] c show ?thesis
    by (cases r) (simp_all add: addMessage_def)
qed

lemma length_stream_log: "\<exists>xs. log (snd (length_stream s w)) = log w @ xs"
proof -
  obtain r w1 where c: "client_XLEN (streamName s) w = (r, w1)"
    by (cases "client_XLEN (streamName s) w")
  from XLEN_frame[OF c] c show ?thesis
    by (cases r) (simp_all add: length_stream_def)
qed

text \<open>
  What \<^verbatim>\<open>deleteProcessedMessages\<close> does to the buffer and the history: the buffer stays
  and nothing is deleted with success, or the buffer is emptied and the history gains the
  successful bulk delete of its IDs.
\<close>

lemma deleteProcessedMessages_effect:
  assumes "deleteProcessedMessages s w = (r, s', w')"
  shows "streamName s' = streamName s \<and> consumerGroup s' = consumerGroup s \<and>
         (\<exists>xs. log w' = log w @ xs \<and> acked (streamName s) (consumerGroup s) xs = [] \<and>
            ((processedMessageIds s' = processedMessageIds s \<and>
              (\<forall>p \<in> set (purges (streamName s) xs). \<not> snd p)) \<or>
             (processedMessageIds s' = [] \<and>
              xs = [(XDEL (streamName s) (processedMessageIds s), True)])))"
  using deleteProcessedMessages_cases[OF assms]
proof (elim disjE conjE exE)
  assume "processedMessageIds s = []" "r = Inr ()" "s' = s" "w' = w"
  then show ?thesis by simp
next
  fix e w1
  assume a: "client_XDEL (streamName s) (processedMessageIds s) w = (Inl e, w1)"
    "s' = s" "w' = console_error e w1"
  from XDEL_frame[OF a(1)] a(3)
  have "log w' = log w @ [(XDEL (streamName s) (processedMessageIds s), False)]" by simp
  moreover have "acked (streamName s) (consumerGroup s)
      [(XDEL (streamName s) (processedMessageIds s), False)] = []"
    "purges (streamName s) [(XDEL (streamName s) (processedMessageIds s), False)]
      = [(processedMessageIds s, False)]"
    by (simp_all add: acked_single purges_single)
  ultimately show ?thesis using a(2) by auto
next
  fix n
  assume a: "client_XDEL (streamName s) (processedMessageIds s) w = (Inr n, w')"
    "s' = s\<lparr>processedMessageIds := []\<rparr>"
  from XDEL_frame[OF a(1)]
  have "log w' = log w @ [(XDEL (streamName s) (processedMessageIds s), True)]" by simp
  moreover have "acked (streamName s) (consumerGroup s)
      [(XDEL (streamName s) (processedMessageIds s), True)] = []"
    by (simp add: acked_single)
  ultimately show ?thesis using a(2) by auto
qed

lemma run_op_effect:
  assumes "run_op opn s w = (s', w')"
  shows "streamName s' = streamName s \<and> consumerGroup s' = consumerGroup s \<and>
    (\<exists>xs. log w' = log w @ xs \<and>
       set (processedMessageIds s')
         \<subseteq> set (processedMessageIds s) \<union> set (acked (streamName s) (consumerGroup s) xs) \<and>
       (set (processedMessageIds s) \<subseteq> set (processedMessageIds s') \<or>
        (processedMessageIds s' = [] \<and>
         (\<exists>ids. (ids, True) \<in> set (purges (streamName s) xs) \<and>
                set (processedMessageIds s) \<subseteq> set ids))))"
proof (cases opn)
  case Connect
  with assms connect_log[of s w] show ?thesis by auto
next
  case (AddMessage v)
  with assms addMessage_log[of s v w] show ?thesis by auto
next
  case GetFailedMessage
  obtain r w1 where g: "getFailedMessage s w = (r, w1)" by (cases "getFailedMessage s w")
  with assms GetFailedMessage getFailedMessage_log[OF g] show ?thesis by auto
next
  case Length
  with assms length_stream_log[of s w] show ?thesis by auto
next
  case DeleteProcessedMessages
  obtain r where d: "deleteProcessedMessages s w = (r, s', w')"
    using assms DeleteProcessedMessages by (cases "deleteProcessedMessages s w") auto
  from deleteProcessedMessages_effect[OF d] show ?thesis
    by (auto simp: purges_single)
next
  case Disconnect
  obtain rd sd wd where d: "deleteProcessedMessages s w = (rd, sd, wd)"
    by (cases "deleteProcessedMessages s w")
  obtain s1 w1 where f: "disconnect_flush s w = (s1, w1)" by (cases "disconnect_flush s w")
  obtain r2 w2 where c: "client_disconnect w1 = (r2, w2)" by (cases "client_disconnect w1")
  have s1: "s1 = sd \<and> log w1 = log wd"
    using d f by (cases rd) (auto simp: disconnect_flush_def)
  have s': "s' = s1 \<and> log w' = log w2"
    using assms Disconnect f c by (cases r2) (auto simp: disconnect_def)
  note w1 = s1[THEN conjunct2] and w' = s'[THEN conjunct2]
  from disconnect_frame[OF c] w' have l: "log w' = log w1 @ [(DISCONNECT, \<not> isl r2)]" by simp
  from deleteProcessedMessages_effect[OF d] obtain xs where
    n: "streamName sd = streamName s" "consumerGroup sd = consumerGroup s"
    and xs: "log wd = log w @ xs"
      "processedMessageIds sd = processedMessageIds s \<or>
             (processedMessageIds sd = [] \<and>
              xs = [(XDEL (streamName s) (processedMessageIds s), True)])"
    by blast
  let ?ys = "xs @ [(DISCONNECT, \<not> isl r2)]"
  have ll: "log w' = log w @ ?ys" using l w1 xs(1) by simp
  from xs(2) have "set (processedMessageIds sd)
         \<subseteq> set (processedMessageIds s) \<union> set (acked (streamName s) (consumerGroup s) ?ys) \<and>
       (set (processedMessageIds s) \<subseteq> set (processedMessageIds sd) \<or>
        (processedMessageIds sd = [] \<and>
         (\<exists>ids. (ids, True) \<in> set (purges (streamName s) ?ys) \<and>
                set (processedMessageIds s) \<subseteq> set ids)))"
  proof (elim disjE conjE)
    assume "processedMessageIds sd = processedMessageIds s"
    then show ?thesis by simp
  next
    assume e: "processedMessageIds sd = []"
      and x: "xs = [(XDEL (streamName s) (processedMessageIds s), True)]"
    have "(processedMessageIds s, True) \<in> set (purges (streamName s) ?ys)"
      unfolding x by (simp add: purges_def)
    with e show ?thesis
      by (intro conjI disjI2 exI[where x="processedMessageIds s"]) simp_all
  qed
  with ll n s' s1 show ?thesis by blast
next
  case ConsumeMessage
  obtain r where c: "consumeMessage s w = (r, s', w')"
    using assms ConsumeMessage by (cases "consumeMessage s w") auto
  from consumeMessage_effect[OF c] obtain pre xs where
    n: "streamName s' = streamName s" "consumerGroup s' = consumerGroup s"
    and l: "log w' = log w @ pre @ xs"
    and pre: "acked (streamName s) (consumerGroup s) pre = []" "purges (streamName s) pre = []"
    and xs: "(processedMessageIds s' = processedMessageIds s \<and>
             acked (streamName s) (consumerGroup s) xs = [] \<and> purges (streamName s) xs = []) \<or>
            (\<exists>j. length (set_add (processedMessageIds s) j) \<le> MAX_PROCESSED_IDS \<and>
               xs = [(XACK (streamName s) (consumerGroup s) j, True)] \<and>
               processedMessageIds s' = set_add (processedMessageIds s) j) \<or>
            (\<exists>j ok. length (set_add (processedMessageIds s) j) > MAX_PROCESSED_IDS \<and>
               xs = [(XACK (streamName s) (consumerGroup s) j, True),
                     (XDEL (streamName s) (set_add (processedMessageIds s) j), ok)] \<and>
               processedMessageIds s' = (if ok then [] else set_add (processedMessageIds s) j))"
    by blast
  have ap: "acked (streamName s) (consumerGroup s) (pre @ xs)
      = acked (streamName s) (consumerGroup s) xs"
    "purges (streamName s) (pre @ xs) = purges (streamName s) xs"
    using pre by simp_all
  from xs have "set (processedMessageIds s')
         \<subseteq> set (processedMessageIds s) \<union> set (acked (streamName s) (consumerGroup s) xs) \<and>
       (set (processedMessageIds s) \<subseteq> set (processedMessageIds s') \<or>
        (processedMessageIds s' = [] \<and>
         (\<exists>ids. (ids, True) \<in> set (purges (streamName s) xs) \<and>
                set (processedMessageIds s) \<subseteq> set ids)))"
  proof (elim disjE exE conjE)
    assume "processedMessageIds s' = processedMessageIds s"
    then show ?thesis by simp
  next
    fix j
    assume "xs = [(XACK (streamName s) (consumerGroup s) j, True)]"
      "processedMessageIds s' = set_add (processedMessageIds s) j"
    then show ?thesis by (auto simp: acked_single)
  next
    fix j ok
    assume x: "xs = [(XACK (streamName s) (consumerGroup s) j, True),
                     (XDEL (streamName s) (set_add (processedMessageIds s) j), ok)]"
      and p: "processedMessageIds s' = (if ok then [] else set_add (processedMessageIds s) j)"
    have a: "acked (streamName s) (consumerGroup s) xs = [j]"
      and d: "purges (streamName s) xs = [(set_add (processedMessageIds s) j, ok)]"
      unfolding x by (simp_all add: acked_def purges_def)
    show ?thesis
    proof (cases ok)
      case True
      with p have "processedMessageIds s' = []" by simp
      moreover have "(set_add (processedMessageIds s) j, True) \<in> set (purges (streamName s) xs)"
        using d True by simp
      moreover have "set (processedMessageIds s) \<subseteq> set (set_add (processedMessageIds s) j)"
        by auto
      ultimately show ?thesis
        by (intro conjI disjI2 exI[where x="set_add (processedMessageIds s) j"]) simp_all
    next
      case False
      with p have "processedMessageIds s' = set_add (processedMessageIds s) j" by simp
      with a show ?thesis by auto
    qed
  qed
  with ap have "set (processedMessageIds s')
         \<subseteq> set (processedMessageIds s) \<union>
           set (acked (streamName s) (consumerGroup s) (pre @ xs)) \<and>
       (set (processedMessageIds s) \<subseteq> set (processedMessageIds s') \<or>
        (processedMessageIds s' = [] \<and>
         (\<exists>ids. (ids, True) \<in> set (purges (streamName s) (pre @ xs)) \<and>
                set (processedMessageIds s) \<subseteq> set ids)))"
    by simp
  with n l show ?thesis by blast
qed

text \<open>
  C9. The buffer of a new instance is empty. Every operation of a stream keeps the
  invariant that each ID in the buffer has been acknowledged with success in the
  history; an ID enters the buffer only with its successful acknowledgment by the
  operation; and the buffer only grows, unless the operation empties it altogether, which
  it does only with a successful bulk delete that covers every ID that was in it.
\<close>

theorem buffer_invariant:
  assumes "run_op opn s w = (s', w')"
  shows "processedMessageIds (MessageStream_new name url pm_id) = [] \<and>
         (buffer_acked s w \<longrightarrow> buffer_acked s' w') \<and>
         set (processedMessageIds s')
           \<subseteq> set (processedMessageIds s) \<union>
             set (acked (streamName s) (consumerGroup s) (since w w')) \<and>
         (set (processedMessageIds s) \<subseteq> set (processedMessageIds s') \<or>
          (processedMessageIds s' = [] \<and>
           (\<exists>ids. (ids, True) \<in> set (purges (streamName s) (since w w')) \<and>
                  set (processedMessageIds s) \<subseteq> set ids)))"
proof -
  from run_op_effect[OF assms] obtain xs where
    n: "streamName s' = streamName s" "consumerGroup s' = consumerGroup s"
    and l: "log w' = log w @ xs"
    and a: "set (processedMessageIds s')
         \<subseteq> set (processedMessageIds s) \<union> set (acked (streamName s) (consumerGroup s) xs)"
    and b: "set (processedMessageIds s) \<subseteq> set (processedMessageIds s') \<or>
        (processedMessageIds s' = [] \<and>
         (\<exists>ids. (ids, True) \<in> set (purges (streamName s) xs) \<and>
                set (processedMessageIds s) \<subseteq> set ids))"
    by blast
  have s: "since w w' = xs" using l by (rule since_append)
  have "buffer_acked s' w'" if "buffer_acked s w"
    using that a n l by (auto simp: buffer_acked_def)
  moreover have "processedMessageIds (MessageStream_new name url pm_id) = []"
    by (simp add: MessageStream_new_def)
  ultimately show ?thesis using a b s by blast
qed

theorem buffer_invariant_witness:
  "buffer_acked jobs (jobs_world (backlog 1) 0 [] []) \<and>
   processedMessageIds (fst (run_op ConsumeMessage jobs (jobs_world (backlog 1) 0 [] [])))
     = [''1-0''] \<and>
   buffer_acked (fst (run_op ConsumeMessage jobs (jobs_world (backlog 1) 0 [] [])))
     (snd (run_op ConsumeMessage jobs (jobs_world (backlog 1) 0 [] []))) \<and>
   set [''1-0''] \<subseteq> set (acked ''stream:jobs'' ''jobs:consumer:group''
     (since (jobs_world (backlog 1) 0 [] [])
        (snd (run_op ConsumeMessage jobs (jobs_world (backlog 1) 0 [] [])))))"
proof -
  let ?w = "jobs_world (backlog 1) 0 [] []"
  let ?r = "run_op ConsumeMessage jobs ?w"
  have b1: "backlog (Suc 0) = [(Suc 0, [(''data'', Doc (JsonStr ''job''))])]"
    by (simp add: backlog_def)
  have a: "buffer_acked jobs ?w" by (simp add: buffer_acked_def)
  have p: "processedMessageIds (fst ?r) = [''1-0'']"
    by (simp add: b1 consume_defs id_text_1)
  have r: "run_op ConsumeMessage jobs ?w = (fst ?r, snd ?r)" by simp
  note T = buffer_invariant [of ConsumeMessage jobs ?w "fst ?r" "snd ?r" "''jobs''" None None, OF r]
  from T a have 1: "buffer_acked (fst ?r) (snd ?r)" by blast
  from T p have 2: "set [''1-0''] \<subseteq> set (acked ''stream:jobs'' ''jobs:consumer:group''
     (since ?w (snd ?r)))" by simp
  from a p 1 2 show ?thesis by blast
qed


section \<open>Runs of consumeMessage and the purge at the mark\<close>

lemma consume_run_names:
  "consume_run n s w = (s', w') \<Longrightarrow>
   streamName s' = streamName s \<and> consumerGroup s' = consumerGroup s \<and>
   (\<exists>xs. log w' = log w @ xs)"
proof (induction n arbitrary: s w)
  case 0
  then show ?case by simp
next
  case (Suc n)
  obtain r s1 w1 where c: "consumeMessage s w = (r, s1, w1)" by (cases "consumeMessage s w")
  with Suc.prems have run: "consume_run n s1 w1 = (s', w')" by simp
  from consumeMessage_effect[OF c] obtain ys where
    "streamName s1 = streamName s" "consumerGroup s1 = consumerGroup s" "log w1 = log w @ ys"
    by (metis append.assoc)
  with Suc.IH[OF run] show ?case by auto
qed

text \<open>A run that acknowledges nothing leaves the buffer alone and deletes nothing.\<close>

lemma run_without_acks:
  assumes "consume_run n s w = (s', w')" and "log w' = log w @ xs"
    and "acked (streamName s) (consumerGroup s) xs = []"
  shows "processedMessageIds s' = processedMessageIds s \<and> purges (streamName s) xs = []"
  using assms
proof (induction n arbitrary: s w xs)
  case 0
  then show ?case by simp
next
  case (Suc n)
  let ?K = "streamName s" and ?G = "consumerGroup s"
  obtain r s1 w1 where c: "consumeMessage s w = (r, s1, w1)" by (cases "consumeMessage s w")
  with Suc.prems(1) have run: "consume_run n s1 w1 = (s', w')" by simp
  from consume_run_names[OF run] obtain zs where zs: "log w' = log w1 @ zs" by blast
  from consumeMessage_effect[OF c] obtain pre ys where
    n: "streamName s1 = ?K" "consumerGroup s1 = ?G"
    and l: "log w1 = log w @ pre @ ys"
    and pre: "acked ?K ?G pre = []" "purges ?K pre = []"
    and ys: "(processedMessageIds s1 = processedMessageIds s \<and>
             acked ?K ?G ys = [] \<and> purges ?K ys = []) \<or>
            (\<exists>j. length (set_add (processedMessageIds s) j) \<le> MAX_PROCESSED_IDS \<and>
               ys = [(XACK ?K ?G j, True)] \<and>
               processedMessageIds s1 = set_add (processedMessageIds s) j) \<or>
            (\<exists>j ok. length (set_add (processedMessageIds s) j) > MAX_PROCESSED_IDS \<and>
               ys = [(XACK ?K ?G j, True), (XDEL ?K (set_add (processedMessageIds s) j), ok)] \<and>
               processedMessageIds s1 = (if ok then [] else set_add (processedMessageIds s) j))"
    by blast
  have xs: "xs = pre @ ys @ zs" using Suc.prems(2) l zs by simp
  with Suc.prems(3) have a: "acked ?K ?G ys = []" "acked ?K ?G zs = []" by simp_all
  have "\<not> (\<exists>j. ys = [(XACK ?K ?G j, True)])"
    "\<not> (\<exists>j ids ok. ys = [(XACK ?K ?G j, True), (XDEL ?K ids, ok)])"
    using a(1) by (auto simp: acked_def)
  with ys have same: "processedMessageIds s1 = processedMessageIds s" "purges ?K ys = []"
    by blast+
  from Suc.IH[OF run zs] a(2) n have "processedMessageIds s' = processedMessageIds s1"
    "purges ?K zs = []" by simp_all
  with same pre xs show ?case by simp
qed

lemma set_add_fresh: "x \<notin> set xs \<Longrightarrow> set_add xs x = xs @ [x]"
  by (simp add: set_add_def)

text \<open>
  A run whose acknowledged IDs are distinct and not in the buffer: as long as the buffer
  with them stays at or below the mark, they are appended to the buffer and nothing is
  deleted; when the last of them takes the buffer to one above the mark, the bulk delete
  of the whole buffer follows that acknowledgment at once and is the only one.
\<close>

lemma run_buffer:
  assumes "consume_run n s w = (s', w')" and "log w' = log w @ xs"
    and "distinct (processedMessageIds s @ acked (streamName s) (consumerGroup s) xs)"
  shows "(length (processedMessageIds s @ acked (streamName s) (consumerGroup s) xs)
            \<le> MAX_PROCESSED_IDS \<longrightarrow>
          processedMessageIds s'
            = processedMessageIds s @ acked (streamName s) (consumerGroup s) xs \<and>
          purges (streamName s) xs = []) \<and>
         (acked (streamName s) (consumerGroup s) xs \<noteq> [] \<and>
          length (processedMessageIds s @ acked (streamName s) (consumerGroup s) xs)
            = Suc MAX_PROCESSED_IDS \<longrightarrow>
          (\<exists>pre ok post.
             xs = pre @
               [(XACK (streamName s) (consumerGroup s)
                   (last (acked (streamName s) (consumerGroup s) xs)), True),
                (XDEL (streamName s)
                   (processedMessageIds s @ acked (streamName s) (consumerGroup s) xs), ok)]
               @ post \<and>
             purges (streamName s) pre = [] \<and> purges (streamName s) post = [] \<and>
             acked (streamName s) (consumerGroup s) post = [] \<and>
             processedMessageIds s' =
               (if ok then []
                else processedMessageIds s @ acked (streamName s) (consumerGroup s) xs)))"
  using assms
proof (induction n arbitrary: s w xs)
  case 0
  then show ?case by simp
next
  case (Suc n)
  let ?K = "streamName s" and ?G = "consumerGroup s" and ?B = "processedMessageIds s"
  obtain r s1 w1 where c: "consumeMessage s w = (r, s1, w1)" by (cases "consumeMessage s w")
  with Suc.prems(1) have run: "consume_run n s1 w1 = (s', w')" by simp
  from consume_run_names[OF run] obtain zs where zs: "log w' = log w1 @ zs" by blast
  from consumeMessage_effect[OF c] obtain pre1 ys where
    n: "streamName s1 = ?K" "consumerGroup s1 = ?G"
    and l: "log w1 = log w @ pre1 @ ys"
    and pre1: "acked ?K ?G pre1 = []" "purges ?K pre1 = []"
    and ys: "(processedMessageIds s1 = ?B \<and> acked ?K ?G ys = [] \<and> purges ?K ys = []) \<or>
            (\<exists>j. length (set_add ?B j) \<le> MAX_PROCESSED_IDS \<and>
               ys = [(XACK ?K ?G j, True)] \<and> processedMessageIds s1 = set_add ?B j) \<or>
            (\<exists>j ok. length (set_add ?B j) > MAX_PROCESSED_IDS \<and>
               ys = [(XACK ?K ?G j, True), (XDEL ?K (set_add ?B j), ok)] \<and>
               processedMessageIds s1 = (if ok then [] else set_add ?B j))"
    by blast
  have xs: "xs = pre1 @ ys @ zs" using Suc.prems(2) l zs by simp
  have A: "acked ?K ?G xs = acked ?K ?G ys @ acked ?K ?G zs"
    and P: "purges ?K xs = purges ?K ys @ purges ?K zs"
    using xs pre1 by simp_all
  from ys show ?case
  proof (elim disjE exE conjE)
    assume same: "processedMessageIds s1 = ?B" "acked ?K ?G ys = []" "purges ?K ys = []"
    have d: "distinct (processedMessageIds s1 @ acked (streamName s1) (consumerGroup s1) zs)"
      using Suc.prems(3) A same n by simp
    note IH = Suc.IH[OF run zs d, unfolded n same(1)]
    note IH1 = IH[THEN conjunct1, rule_format] and IH2 = IH[THEN conjunct2, rule_format]
    have A': "acked ?K ?G xs = acked ?K ?G zs" and P': "purges ?K xs = purges ?K zs"
      using A P same by simp_all
    show ?thesis
    proof (rule conjI; rule impI)
      assume "length (?B @ acked ?K ?G xs) \<le> MAX_PROCESSED_IDS"
      then have "length (?B @ acked ?K ?G zs) \<le> MAX_PROCESSED_IDS" unfolding A' .
      from IH1[OF this] show "processedMessageIds s' = ?B @ acked ?K ?G xs \<and> purges ?K xs = []"
        unfolding A' P' .
    next
      assume "acked ?K ?G xs \<noteq> [] \<and> length (?B @ acked ?K ?G xs) = Suc MAX_PROCESSED_IDS"
      then have "acked ?K ?G zs \<noteq> [] \<and> length (?B @ acked ?K ?G zs) = Suc MAX_PROCESSED_IDS"
        unfolding A' .
      from IH2[OF this] obtain pre ok post where
        z: "zs = pre @ [(XACK ?K ?G (last (acked ?K ?G xs)), True),
                        (XDEL ?K (?B @ acked ?K ?G xs), ok)] @ post"
        and q: "purges ?K pre = []" "purges ?K post = []" "acked ?K ?G post = []"
          "processedMessageIds s' = (if ok then [] else ?B @ acked ?K ?G xs)"
        unfolding A' by blast
      have "xs = (pre1 @ ys @ pre) @ [(XACK ?K ?G (last (acked ?K ?G xs)), True),
                        (XDEL ?K (?B @ acked ?K ?G xs), ok)] @ post"
        using xs z by simp
      moreover have "purges ?K (pre1 @ ys @ pre) = []" using pre1 same q by simp
      ultimately show "\<exists>pre ok post.
             xs = pre @ [(XACK ?K ?G (last (acked ?K ?G xs)), True),
                         (XDEL ?K (?B @ acked ?K ?G xs), ok)] @ post \<and>
             purges ?K pre = [] \<and> purges ?K post = [] \<and> acked ?K ?G post = [] \<and>
             processedMessageIds s' = (if ok then [] else ?B @ acked ?K ?G xs)"
        using q by blast
    qed
  next
    fix j
    assume below: "length (set_add ?B j) \<le> MAX_PROCESSED_IDS"
      and y: "ys = [(XACK ?K ?G j, True)]" and b1: "processedMessageIds s1 = set_add ?B j"
    have ay: "acked ?K ?G ys = [j]" and py: "purges ?K ys = []"
      unfolding y by (simp_all add: acked_def purges_def)
    have A': "acked ?K ?G xs = j # acked ?K ?G zs" and P': "purges ?K xs = purges ?K zs"
      using A P ay py by simp_all
    have fresh: "j \<notin> set ?B" using Suc.prems(3) A' by auto
    have b1': "processedMessageIds s1 = ?B @ [j]" using b1 set_add_fresh[OF fresh] by simp
    have d: "distinct (processedMessageIds s1 @ acked (streamName s1) (consumerGroup s1) zs)"
      using Suc.prems(3) A' b1' n by simp
    note IH = Suc.IH[OF run zs d, unfolded n b1']
    note IH1 = IH[THEN conjunct1, rule_format] and IH2 = IH[THEN conjunct2, rule_format]
    have e: "(?B @ [j]) @ acked ?K ?G zs = ?B @ acked ?K ?G xs" using A' by simp
    show ?thesis
    proof (rule conjI; rule impI)
      assume "length (?B @ acked ?K ?G xs) \<le> MAX_PROCESSED_IDS"
      then have "length ((?B @ [j]) @ acked ?K ?G zs) \<le> MAX_PROCESSED_IDS" unfolding e .
      from IH1[OF this] show "processedMessageIds s' = ?B @ acked ?K ?G xs \<and> purges ?K xs = []"
        unfolding e P' .
    next
      assume h: "acked ?K ?G xs \<noteq> [] \<and> length (?B @ acked ?K ?G xs) = Suc MAX_PROCESSED_IDS"
      have nz: "acked ?K ?G zs \<noteq> []"
      proof
        assume "acked ?K ?G zs = []"
        with h A' have "length (?B @ [j]) = Suc MAX_PROCESSED_IDS" by simp
        with below set_add_fresh[OF fresh] show False by simp
      qed
      then have la: "last (acked ?K ?G xs) = last (acked ?K ?G zs)" using A' by simp
      have "acked ?K ?G zs \<noteq> [] \<and>
            length ((?B @ [j]) @ acked ?K ?G zs) = Suc MAX_PROCESSED_IDS"
        using nz h unfolding e by simp
      from IH2[OF this] obtain pre ok post where
        z: "zs = pre @ [(XACK ?K ?G (last (acked ?K ?G zs)), True),
                        (XDEL ?K ((?B @ [j]) @ acked ?K ?G zs), ok)] @ post"
        and q: "purges ?K pre = []" "purges ?K post = []" "acked ?K ?G post = []"
          "processedMessageIds s' = (if ok then [] else (?B @ [j]) @ acked ?K ?G zs)"
        by blast
      have z': "zs = pre @ [(XACK ?K ?G (last (acked ?K ?G xs)), True),
                        (XDEL ?K (?B @ acked ?K ?G xs), ok)] @ post"
        using z unfolding e la[symmetric] .
      have "pre1 @ ys @ zs = (pre1 @ ys @ pre) @ [(XACK ?K ?G (last (acked ?K ?G xs)), True),
                        (XDEL ?K (?B @ acked ?K ?G xs), ok)] @ post"
        by (subst z') simp
      with xs have "xs = (pre1 @ ys @ pre) @ [(XACK ?K ?G (last (acked ?K ?G xs)), True),
                        (XDEL ?K (?B @ acked ?K ?G xs), ok)] @ post"
        by (rule trans)
      moreover have "purges ?K (pre1 @ ys @ pre) = []" using pre1 py q by simp
      moreover have "processedMessageIds s' = (if ok then [] else ?B @ acked ?K ?G xs)"
        using q(4) e by simp
      ultimately show "\<exists>pre ok post.
             xs = pre @ [(XACK ?K ?G (last (acked ?K ?G xs)), True),
                         (XDEL ?K (?B @ acked ?K ?G xs), ok)] @ post \<and>
             purges ?K pre = [] \<and> purges ?K post = [] \<and> acked ?K ?G post = [] \<and>
             processedMessageIds s' = (if ok then [] else ?B @ acked ?K ?G xs)"
        using q by blast
    qed
  next
    fix j ok
    assume above: "length (set_add ?B j) > MAX_PROCESSED_IDS"
      and y: "ys = [(XACK ?K ?G j, True), (XDEL ?K (set_add ?B j), ok)]"
      and b1: "processedMessageIds s1 = (if ok then [] else set_add ?B j)"
    have ay: "acked ?K ?G ys = [j]" and py: "purges ?K ys = [(set_add ?B j, ok)]"
      unfolding y by (simp_all add: acked_def purges_def)
    have A': "acked ?K ?G xs = j # acked ?K ?G zs"
      using A ay by simp
    have fresh: "j \<notin> set ?B" using Suc.prems(3) A' by auto
    have sa: "set_add ?B j = ?B @ [j]" by (rule set_add_fresh[OF fresh])
    show ?thesis
    proof (rule conjI; rule impI)
      assume "length (?B @ acked ?K ?G xs) \<le> MAX_PROCESSED_IDS"
      with above sa A' have False by simp
      then show "processedMessageIds s' = ?B @ acked ?K ?G xs \<and> purges ?K xs = []" ..
    next
      assume h: "acked ?K ?G xs \<noteq> [] \<and> length (?B @ acked ?K ?G xs) = Suc MAX_PROCESSED_IDS"
      from h A' have l1: "Suc (length ?B + length (acked ?K ?G zs)) = Suc MAX_PROCESSED_IDS"
        by simp
      from above sa have l2: "MAX_PROCESSED_IDS < Suc (length ?B)" by simp
      from l1 l2 have "\<not> 0 < length (acked ?K ?G zs)" by arith
      then have az: "acked ?K ?G zs = []" by simp
      then have e: "?B @ acked ?K ?G xs = ?B @ [j]" and la: "last (acked ?K ?G xs) = j"
        using A' by simp_all
      have az1: "acked (streamName s1) (consumerGroup s1) zs = []" using az n by simp
      from run_without_acks[OF run zs az1] n
      have keep: "processedMessageIds s' = processedMessageIds s1" and pz: "purges ?K zs = []"
        by simp_all
      have "ys = [(XACK ?K ?G (last (acked ?K ?G xs)), True),
                  (XDEL ?K (?B @ acked ?K ?G xs), ok)]"
        unfolding y la e sa ..
      with xs have "xs = pre1 @ [(XACK ?K ?G (last (acked ?K ?G xs)), True),
                        (XDEL ?K (?B @ acked ?K ?G xs), ok)] @ zs"
        by (simp only:)
      moreover have "processedMessageIds s' = (if ok then [] else ?B @ acked ?K ?G xs)"
        using keep b1 sa e by simp
      ultimately show "\<exists>pre ok post.
             xs = pre @ [(XACK ?K ?G (last (acked ?K ?G xs)), True),
                         (XDEL ?K (?B @ acked ?K ?G xs), ok)] @ post \<and>
             purges ?K pre = [] \<and> purges ?K post = [] \<and> acked ?K ?G post = [] \<and>
             processedMessageIds s' = (if ok then [] else ?B @ acked ?K ?G xs)"
        using pre1(2) pz az by blast
    qed
  qed
qed

text \<open>
  C3, amended. Take any run of \<^verbatim>\<open>consumeMessage\<close> calls from an empty buffer whose
  successful acknowledgments are of \<open>MAX_PROCESSED_IDS + 1\<close> distinct IDs. The run sends
  exactly one bulk delete; it is the client call right after the last of those
  acknowledgments, so it is made by the call that crossed the mark, before that call
  returns, and it covers all the IDs. The buffer after the run is empty when the delete
  succeeded, and still holds all the IDs, one more than the mark, when it failed.
\<close>

theorem one_purge_at_the_mark:
  assumes "processedMessageIds s = []"
    and "consume_run n s w = (s', w')"
    and "distinct (acked (streamName s) (consumerGroup s) (since w w'))"
    and "length (acked (streamName s) (consumerGroup s) (since w w')) = MAX_PROCESSED_IDS + 1"
  shows "\<exists>pre ok post.
           since w w' = pre @
             [(XACK (streamName s) (consumerGroup s)
                 (last (acked (streamName s) (consumerGroup s) (since w w'))), True),
              (XDEL (streamName s) (acked (streamName s) (consumerGroup s) (since w w')), ok)]
             @ post \<and>
           purges (streamName s) pre = [] \<and> purges (streamName s) post = [] \<and>
           acked (streamName s) (consumerGroup s) post = [] \<and>
           purges (streamName s) (since w w')
             = [(acked (streamName s) (consumerGroup s) (since w w'), ok)] \<and>
           processedMessageIds s'
             = (if ok then [] else acked (streamName s) (consumerGroup s) (since w w')) \<and>
           (length (processedMessageIds s') \<le> MAX_PROCESSED_IDS \<longleftrightarrow> ok)"
proof -
  let ?K = "streamName s" and ?G = "consumerGroup s"
  from consume_run_names[OF assms(2)] obtain xs where l: "log w' = log w @ xs" by blast
  then have s: "since w w' = xs" by (rule since_append)
  define A where "A = acked ?K ?G xs"
  have d: "distinct (processedMessageIds s @ acked ?K ?G xs)" using assms(1,3) s by simp
  have h: "acked ?K ?G xs \<noteq> [] \<and>
           length (processedMessageIds s @ acked ?K ?G xs) = Suc MAX_PROCESSED_IDS"
    using assms(1,4) s by auto
  from run_buffer[OF assms(2) l d, THEN conjunct2, rule_format, OF h] assms(1)
  obtain pre ok post where
    x: "xs = pre @ [(XACK ?K ?G (last A), True), (XDEL ?K A, ok)] @ post"
    and q: "purges ?K pre = []" "purges ?K post = []" "acked ?K ?G post = []"
      "processedMessageIds s' = (if ok then [] else A)"
    unfolding A_def by auto
  have "purges ?K [(XACK ?K ?G (last A), True), (XDEL ?K A, ok)] = [(A, ok)]"
    by (simp add: purges_def)
  then have p: "purges ?K xs = [(A, ok)]"
    unfolding x using q(1,2) by (simp only: purges_append append_Nil append_Nil2)
  have la: "length A = Suc MAX_PROCESSED_IDS" using assms(4) s by (simp add: A_def)
  have "length (processedMessageIds s') \<le> MAX_PROCESSED_IDS \<longleftrightarrow> ok"
    using q(4) la by auto
  with x q p have "\<exists>pre ok post.
           xs = pre @ [(XACK ?K ?G (last A), True), (XDEL ?K A, ok)] @ post \<and>
           purges ?K pre = [] \<and> purges ?K post = [] \<and> acked ?K ?G post = [] \<and>
           purges ?K xs = [(A, ok)] \<and>
           processedMessageIds s' = (if ok then [] else A) \<and>
           (length (processedMessageIds s') \<le> MAX_PROCESSED_IDS \<longleftrightarrow> ok)"
    by blast
  then show ?thesis unfolding s A_def .
qed


section \<open>A run across the mark\<close>

lemma digit_inj: "a < 10 \<Longrightarrow> b < 10 \<Longrightarrow> digit a = digit b \<Longrightarrow> a = b"
proof -
  assume a: "a < 10" and b: "b < 10" and e: "digit a = digit b"
  have d: "distinct ''0123456789''" by simp
  have l: "length ''0123456789'' = 10" by simp
  from e have "''0123456789'' ! a = ''0123456789'' ! b" by (simp only: digit_def)
  with d a b l show "a = b" by (simp only: nth_eq_iff_index_eq)
qed

lemma dec_nonempty: "dec n \<noteq> []"
  by (subst dec.simps) simp

lemma dec_inj: "dec m = dec n \<Longrightarrow> m = n"
proof (induction m arbitrary: n rule: dec.induct)
  case (1 m)
  show ?case
  proof (cases "m < 10")
    case True
    then have dm: "dec m = [digit m]" by (subst dec.simps) simp
    show ?thesis
    proof (cases "n < 10")
      case n: True
      then have "dec n = [digit n]" by (subst dec.simps) simp
      with dm "1.prems" have "digit m = digit n" by simp
      with True n show ?thesis by (rule digit_inj)
    next
      case n: False
      then have "dec n = dec (n div 10) @ [digit (n mod 10)]" by (subst dec.simps) simp
      with dm "1.prems" have "dec (n div 10) = []" by simp
      with dec_nonempty show ?thesis by blast
    qed
  next
    case False
    then have dm: "dec m = dec (m div 10) @ [digit (m mod 10)]" by (subst dec.simps) simp
    show ?thesis
    proof (cases "n < 10")
      case n: True
      then have "dec n = [digit n]" by (subst dec.simps) simp
      with dm "1.prems" have "dec (m div 10) = []" by simp
      with dec_nonempty show ?thesis by blast
    next
      case n: False
      then have "dec n = dec (n div 10) @ [digit (n mod 10)]" by (subst dec.simps) simp
      with dm "1.prems" have e: "dec (m div 10) = dec (n div 10)"
        "digit (m mod 10) = digit (n mod 10)" by simp_all
      from "1.IH"[OF False e(1)] have q: "m div 10 = n div 10" .
      have "m mod 10 = n mod 10" using e(2) by (intro digit_inj) simp_all
      with q show ?thesis by (metis div_mult_mod_eq)
    qed
  qed
qed

lemma id_text_inj: "id_text m = id_text n \<longleftrightarrow> m = n"
  using dec_inj by (auto simp: id_text_def)

lemma id_text_nonempty: "id_text n \<noteq> []"
  by (simp add: id_text_def)

lemma job_ids_Suc: "job_ids (Suc k) = job_ids k @ [id_text (Suc k)]"
  by (simp add: job_ids_def)

lemma job_ids_fresh: "id_text (Suc k) \<notin> set (job_ids k)"
  by (auto simp: job_ids_def id_text_inj)

lemma length_job_ids: "length (job_ids k) = k"
  by (simp add: job_ids_def)

lemma distinct_job_ids: "distinct (job_ids k)"
  by (simp add: job_ids_def distinct_map inj_on_def id_text_inj)

lemma filter_after: "filter (\<lambda>i. a < i) [1..<Suc n] = [Suc a..<Suc n]"
  by (induction n) auto

lemma backlog_next:
  assumes "a < n"
  shows "take (Suc 0) (filter (\<lambda>e. a < fst e) (backlog n))
           = [(Suc a, [(''data'', Doc (JsonStr ''job''))])]"
proof -
  have "filter (\<lambda>e. a < fst e) (backlog n)
      = map (\<lambda>i. (i, [(''data'', Doc (JsonStr ''job''))])) (filter (\<lambda>i. a < i) [1..<Suc n])"
    by (simp add: backlog_def filter_map comp_def)
  also have "\<dots> = map (\<lambda>i. (i, [(''data'', Doc (JsonStr ''job''))])) [Suc a..<Suc n]"
    by (simp only: filter_after)
  also have "[Suc a..<Suc n] = Suc a # [Suc (Suc a)..<Suc n]"
    using assms by (simp add: upt_conv_Cons)
  finally show ?thesis by simp
qed

lemmas step_defs =
  consumeMessage_def consume_failed_def consume_new_def consume_ack_def getFailedMessage_def
  client_XAUTOCLAIM_def client_XREADGROUP_def client_XACK_def
  call_def next_fault_def put_stream_def put_group_def render_def data_of_def
  console_error_def jobs_world_def

text \<open>
  One call on the backlog below the mark: nothing is pending, the entry after the cursor
  is read, acknowledged and recorded.
\<close>

lemma backlog_step:
  assumes "a < n" and "a < MAX_PROCESSED_IDS"
  shows "consumeMessage (jobs\<lparr>processedMessageIds := job_ids a\<rparr>)
           ((jobs_world (backlog n) a [] (None # None # None # scr))\<lparr>log := lg\<rparr>)
         = (Inr (Some (id_text (Suc a)), JStr ''job''),
            jobs\<lparr>processedMessageIds := job_ids (Suc a)\<rparr>,
            (jobs_world (backlog n) (Suc a) [] scr)\<lparr>log := lg @ reads_log a 1\<rparr>)"
proof -
  have below: "\<not> MAX_PROCESSED_IDS < Suc a" using assms(2) by simp
  show ?thesis
    by (simp add: step_defs backlog_next[OF assms(1)] id_text_nonempty id_text_inj
        set_add_fresh[OF job_ids_fresh] job_ids_Suc length_job_ids below reads_log_def)
qed

lemma reads_log_0 [simp]: "reads_log a 0 = []"
  by (simp add: reads_log_def)

lemma reads_log_Suc:
  "reads_log a (Suc k) =
     [(XAUTOCLAIM ''stream:jobs'' ''jobs:consumer:group'' ''0'' 0 ''0'' 1, True),
      (XREADGROUP ''jobs:consumer:group'' ''0'' ''stream:jobs'' ''>'' 2000 1, True),
      (XACK ''stream:jobs'' ''jobs:consumer:group'' (id_text (Suc a)), True)]
     @ reads_log (Suc a) k"
proof -
  have "[a..<a + Suc k] = a # [Suc a..<Suc a + k]" by (simp add: upt_conv_Cons)
  then show ?thesis by (simp add: reads_log_def)
qed

lemma replicate_3_Suc: "replicate (3 * Suc k) x = x # x # x # replicate (3 * k) x"
  by (simp add: numeral_3_eq_3)

lemma backlog_run:
  "a + k \<le> n \<Longrightarrow> a + k \<le> MAX_PROCESSED_IDS \<Longrightarrow>
   consume_run k (jobs\<lparr>processedMessageIds := job_ids a\<rparr>)
     ((jobs_world (backlog n) a [] (replicate (3 * k) None @ scr))\<lparr>log := lg\<rparr>)
   = (jobs\<lparr>processedMessageIds := job_ids (a + k)\<rparr>,
      (jobs_world (backlog n) (a + k) [] scr)\<lparr>log := lg @ reads_log a k\<rparr>)"
proof (induction k arbitrary: a lg)
  case 0
  show ?case by simp
next
  case (Suc k)
  from Suc.prems have a: "a < n" "a < MAX_PROCESSED_IDS"
    and b: "Suc a + k \<le> n" "Suc a + k \<le> MAX_PROCESSED_IDS" by simp_all
  have "consume_run (Suc k) (jobs\<lparr>processedMessageIds := job_ids a\<rparr>)
     ((jobs_world (backlog n) a [] (replicate (3 * Suc k) None @ scr))\<lparr>log := lg\<rparr>)
     = consume_run k (jobs\<lparr>processedMessageIds := job_ids (Suc a)\<rparr>)
         ((jobs_world (backlog n) (Suc a) [] (replicate (3 * k) None @ scr))
            \<lparr>log := lg @ reads_log a 1\<rparr>)"
    using backlog_step[OF a, where scr="replicate (3 * k) None @ scr" and lg=lg]
    by (simp only: replicate_3_Suc consume_run.simps append_Cons prod.case)
  also have "\<dots> = (jobs\<lparr>processedMessageIds := job_ids (Suc a + k)\<rparr>,
      (jobs_world (backlog n) (Suc a + k) [] scr)
        \<lparr>log := (lg @ reads_log a 1) @ reads_log (Suc a) k\<rparr>)"
    by (rule Suc.IH[OF b])
  finally show ?case by (simp add: reads_log_Suc)
qed

lemma ack_of_reads:
  "acked ''stream:jobs'' ''jobs:consumer:group'' (reads_log a k)
     = map (\<lambda>i. id_text (Suc i)) [a..<a + k] \<and>
   purges ''stream:jobs'' (reads_log a k) = []"
proof (induction k arbitrary: a)
  case 0
  show ?case by simp
next
  case (Suc k)
  have "[a..<a + Suc k] = a # [Suc a..<Suc a + k]" by (simp add: upt_conv_Cons)
  with Suc[of "Suc a"] show ?case by (simp add: reads_log_Suc acked_def purges_def)
qed

lemma acked_reads_from_0:
  "acked ''stream:jobs'' ''jobs:consumer:group'' (reads_log 0 k) = job_ids k"
proof -
  have "map (\<lambda>i. id_text (Suc i)) [0..<k] = map id_text (map Suc [0..<k])" by simp
  also have "map Suc [0..<k] = [1..<Suc k]" by (simp add: map_Suc_upt)
  finally show ?thesis using ack_of_reads[of 0 k] by (simp add: job_ids_def)
qed

text \<open>
  The call that crosses the mark, when the transport fails its bulk delete and when it
  does not.
\<close>

lemma backlog_cross_failed:
  assumes "MAX_PROCESSED_IDS < n"
  shows "processedMessageIds (fst (snd (consumeMessage
            (jobs\<lparr>processedMessageIds := job_ids MAX_PROCESSED_IDS\<rparr>)
            ((jobs_world (backlog n) MAX_PROCESSED_IDS [] (None # None # None # Some e # scr))
               \<lparr>log := lg\<rparr>))))
           = job_ids (Suc MAX_PROCESSED_IDS) \<and>
         log (snd (snd (consumeMessage
            (jobs\<lparr>processedMessageIds := job_ids MAX_PROCESSED_IDS\<rparr>)
            ((jobs_world (backlog n) MAX_PROCESSED_IDS [] (None # None # None # Some e # scr))
               \<lparr>log := lg\<rparr>))))
           = lg @ reads_log MAX_PROCESSED_IDS 1 @
             [(XDEL ''stream:jobs'' (job_ids (Suc MAX_PROCESSED_IDS)), False)]"
  by (simp add: step_defs deleteProcessedMessages_def client_XDEL_def Let_def
      backlog_next[OF assms] id_text_nonempty id_text_inj
      set_add_fresh[OF job_ids_fresh] job_ids_Suc length_job_ids reads_log_def)

lemma backlog_cross_ok:
  assumes "MAX_PROCESSED_IDS < n"
  shows "processedMessageIds (fst (snd (consumeMessage
            (jobs\<lparr>processedMessageIds := job_ids MAX_PROCESSED_IDS\<rparr>)
            ((jobs_world (backlog n) MAX_PROCESSED_IDS [] [None, None, None])
               \<lparr>log := lg\<rparr>))))
           = [] \<and>
         log (snd (snd (consumeMessage
            (jobs\<lparr>processedMessageIds := job_ids MAX_PROCESSED_IDS\<rparr>)
            ((jobs_world (backlog n) MAX_PROCESSED_IDS [] [None, None, None])
               \<lparr>log := lg\<rparr>))))
           = lg @ reads_log MAX_PROCESSED_IDS 1 @
             [(XDEL ''stream:jobs'' (job_ids (Suc MAX_PROCESSED_IDS)), True)]"
  by (simp add: step_defs deleteProcessedMessages_def client_XDEL_def Let_def
      backlog_next[OF assms] id_text_nonempty id_text_inj
      set_add_fresh[OF job_ids_fresh] job_ids_Suc length_job_ids reads_log_def)

lemma consume_run_Suc_end:
  "consume_run (Suc k) s w =
     (case consume_run k s w of (s1, w1) \<Rightarrow> snd (consumeMessage s1 w1))"
proof (induction k arbitrary: s w)
  case 0
  show ?case by (simp split: prod.splits)
next
  case (Suc k)
  obtain r s1 w1 where c: "consumeMessage s w = (r, s1, w1)" by (cases "consumeMessage s w")
  have "consume_run (Suc (Suc k)) s w = consume_run (Suc k) s1 w1" using c by simp
  also have "\<dots> = (case consume_run k s1 w1 of (s2, w2) \<Rightarrow> snd (consumeMessage s2 w2))"
    by (rule Suc.IH)
  also have "consume_run k s1 w1 = consume_run (Suc k) s w" using c by simp
  finally show ?case .
qed

lemma jobs_fresh: "jobs\<lparr>processedMessageIds := job_ids 0\<rparr> = jobs"
  by (simp add: jobs_def MessageStream_new_def job_ids_def)

lemma jobs_world_log: "(jobs_world es k ps scr)\<lparr>log := []\<rparr> = jobs_world es k ps scr"
  by (simp add: jobs_world_def)

text \<open>The run to the mark on the full backlog, whatever the transport does afterwards.\<close>

lemma full_backlog_to_mark:
  "consume_run MAX_PROCESSED_IDS jobs (full_backlog rest)
     = (jobs\<lparr>processedMessageIds := job_ids MAX_PROCESSED_IDS\<rparr>,
        (jobs_world (backlog (Suc MAX_PROCESSED_IDS)) MAX_PROCESSED_IDS []
           (None # None # None # rest))\<lparr>log := reads_log 0 MAX_PROCESSED_IDS\<rparr>)"
proof -
  have r: "replicate (3 * (MAX_PROCESSED_IDS + 1)) None @ rest
      = replicate (3 * MAX_PROCESSED_IDS) None @ (None # None # None # rest)"
  proof -
    have "replicate (3 * MAX_PROCESSED_IDS + 3) (None :: js_error option)
        = replicate (3 * MAX_PROCESSED_IDS) None @ replicate 3 None"
      by (rule replicate_add)
    moreover have "replicate 3 (None :: js_error option) = [None, None, None]"
      by (simp add: numeral_3_eq_3)
    moreover have "3 * (MAX_PROCESSED_IDS + 1) = 3 * MAX_PROCESSED_IDS + 3" by simp
    ultimately show ?thesis by (simp only: append_assoc append_Cons append_Nil)
  qed
  have "consume_run MAX_PROCESSED_IDS (jobs\<lparr>processedMessageIds := job_ids 0\<rparr>)
     ((jobs_world (backlog (Suc MAX_PROCESSED_IDS)) 0 []
         (replicate (3 * MAX_PROCESSED_IDS) None @ (None # None # None # rest)))\<lparr>log := []\<rparr>)
     = (jobs\<lparr>processedMessageIds := job_ids (0 + MAX_PROCESSED_IDS)\<rparr>,
        (jobs_world (backlog (Suc MAX_PROCESSED_IDS)) (0 + MAX_PROCESSED_IDS) []
           (None # None # None # rest))\<lparr>log := [] @ reads_log 0 MAX_PROCESSED_IDS\<rparr>)"
    by (rule backlog_run) simp_all
  then show ?thesis
    unfolding full_backlog_def r by (simp add: jobs_fresh jobs_world_log)
qed

lemma full_backlog_log: "log (full_backlog rest) = []"
  by (simp add: full_backlog_def jobs_world_def)

lemma acked_reads_one:
  "acked ''stream:jobs'' ''jobs:consumer:group'' (reads_log a 1) = [id_text (Suc a)] \<and>
   purges ''stream:jobs'' (reads_log a 1) = []"
  using ack_of_reads[of a 1] by simp

text \<open>
  The whole run on the full backlog: what it acknowledged, what it deleted and the buffer
  it left, when the transport fails the bulk delete and when it does not.
\<close>

lemma full_backlog_failed:
  "acked ''stream:jobs'' ''jobs:consumer:group''
     (since (full_backlog [Some e]) (snd (consume_run (Suc MAX_PROCESSED_IDS) jobs (full_backlog [Some e]))))
     = job_ids (Suc MAX_PROCESSED_IDS) \<and>
   purges ''stream:jobs''
     (since (full_backlog [Some e]) (snd (consume_run (Suc MAX_PROCESSED_IDS) jobs (full_backlog [Some e]))))
     = [(job_ids (Suc MAX_PROCESSED_IDS), False)] \<and>
   processedMessageIds (fst (consume_run (Suc MAX_PROCESSED_IDS) jobs (full_backlog [Some e])))
     = job_ids (Suc MAX_PROCESSED_IDS)"
proof -
  let ?w = "full_backlog [Some e]"
  let ?r = "consume_run (Suc MAX_PROCESSED_IDS) jobs ?w"
  let ?c = "consumeMessage (jobs\<lparr>processedMessageIds := job_ids MAX_PROCESSED_IDS\<rparr>)
            ((jobs_world (backlog (Suc MAX_PROCESSED_IDS)) MAX_PROCESSED_IDS []
                (None # None # None # Some e # []))\<lparr>log := reads_log 0 MAX_PROCESSED_IDS\<rparr>)"
  have r: "?r = snd ?c"
    by (simp only: consume_run_Suc_end full_backlog_to_mark prod.case)
  have m: "MAX_PROCESSED_IDS < Suc MAX_PROCESSED_IDS" by simp
  note c = backlog_cross_failed[OF m, where e=e and scr="[]" and lg="reads_log 0 MAX_PROCESSED_IDS"]
  have b: "processedMessageIds (fst ?r) = job_ids (Suc MAX_PROCESSED_IDS)"
    using c r by simp
  have l: "log (snd ?r) = reads_log 0 MAX_PROCESSED_IDS @ reads_log MAX_PROCESSED_IDS 1 @
             [(XDEL ''stream:jobs'' (job_ids (Suc MAX_PROCESSED_IDS)), False)]"
    using c r by simp
  have s: "since ?w (snd ?r) = reads_log 0 MAX_PROCESSED_IDS @ reads_log MAX_PROCESSED_IDS 1 @
             [(XDEL ''stream:jobs'' (job_ids (Suc MAX_PROCESSED_IDS)), False)]"
    using l by (simp add: since_def full_backlog_log)
  have a: "acked ''stream:jobs'' ''jobs:consumer:group'' (since ?w (snd ?r))
      = job_ids (Suc MAX_PROCESSED_IDS)"
    unfolding s
    by (simp add: acked_reads_from_0 acked_reads_one acked_single job_ids_Suc del: One_nat_def)
  have p: "purges ''stream:jobs'' (since ?w (snd ?r)) = [(job_ids (Suc MAX_PROCESSED_IDS), False)]"
    unfolding s
    using ack_of_reads[of 0 MAX_PROCESSED_IDS]
    by (simp add: acked_reads_one purges_single del: One_nat_def)
  from a p b show ?thesis by blast
qed

lemma full_backlog_ok:
  "acked ''stream:jobs'' ''jobs:consumer:group''
     (since (full_backlog []) (snd (consume_run (Suc MAX_PROCESSED_IDS) jobs (full_backlog []))))
     = job_ids (Suc MAX_PROCESSED_IDS) \<and>
   purges ''stream:jobs''
     (since (full_backlog []) (snd (consume_run (Suc MAX_PROCESSED_IDS) jobs (full_backlog []))))
     = [(job_ids (Suc MAX_PROCESSED_IDS), True)]"
proof -
  let ?w = "full_backlog []"
  let ?r = "consume_run (Suc MAX_PROCESSED_IDS) jobs ?w"
  let ?c = "consumeMessage (jobs\<lparr>processedMessageIds := job_ids MAX_PROCESSED_IDS\<rparr>)
            ((jobs_world (backlog (Suc MAX_PROCESSED_IDS)) MAX_PROCESSED_IDS []
                [None, None, None])\<lparr>log := reads_log 0 MAX_PROCESSED_IDS\<rparr>)"
  have r: "?r = snd ?c"
    by (simp only: consume_run_Suc_end full_backlog_to_mark prod.case)
  have m: "MAX_PROCESSED_IDS < Suc MAX_PROCESSED_IDS" by simp
  note c = backlog_cross_ok[OF m, where lg="reads_log 0 MAX_PROCESSED_IDS"]
  have l: "log (snd ?r) = reads_log 0 MAX_PROCESSED_IDS @ reads_log MAX_PROCESSED_IDS 1 @
             [(XDEL ''stream:jobs'' (job_ids (Suc MAX_PROCESSED_IDS)), True)]"
    using c r by simp
  have s: "since ?w (snd ?r) = reads_log 0 MAX_PROCESSED_IDS @ reads_log MAX_PROCESSED_IDS 1 @
             [(XDEL ''stream:jobs'' (job_ids (Suc MAX_PROCESSED_IDS)), True)]"
    using l by (simp add: since_def full_backlog_log)
  have a: "acked ''stream:jobs'' ''jobs:consumer:group'' (since ?w (snd ?r))
      = job_ids (Suc MAX_PROCESSED_IDS)"
    unfolding s
    by (simp add: acked_reads_from_0 acked_reads_one acked_single job_ids_Suc del: One_nat_def)
  have p: "purges ''stream:jobs'' (since ?w (snd ?r)) = [(job_ids (Suc MAX_PROCESSED_IDS), True)]"
    unfolding s
    using ack_of_reads[of 0 MAX_PROCESSED_IDS]
    by (simp add: acked_reads_one purges_single del: One_nat_def)
  from a p show ?thesis by blast
qed

text \<open>
  C3, as the claim states it, fails. On the full backlog \<open>MAX_PROCESSED_IDS + 1\<close> calls of
  \<^verbatim>\<open>consumeMessage\<close>, from an empty buffer, acknowledge with success the distinct IDs
  \<open>1-0\<close> to \<open>10001-0\<close>; the one purge is triggered, and when the transport fails its
  bulk delete the buffer holds all the IDs after it, one more than the mark.
\<close>

theorem purge_failure_leaves_buffer_over_mark:
  "processedMessageIds jobs = [] \<and>
   acked ''stream:jobs'' ''jobs:consumer:group''
     (since (full_backlog [Some socket_closed])
        (snd (consume_run (MAX_PROCESSED_IDS + 1) jobs (full_backlog [Some socket_closed]))))
     = job_ids (MAX_PROCESSED_IDS + 1) \<and>
   distinct (job_ids (MAX_PROCESSED_IDS + 1)) \<and>
   length (job_ids (MAX_PROCESSED_IDS + 1)) = MAX_PROCESSED_IDS + 1 \<and>
   purges ''stream:jobs''
     (since (full_backlog [Some socket_closed])
        (snd (consume_run (MAX_PROCESSED_IDS + 1) jobs (full_backlog [Some socket_closed]))))
     = [(job_ids (MAX_PROCESSED_IDS + 1), False)] \<and>
   processedMessageIds
     (fst (consume_run (MAX_PROCESSED_IDS + 1) jobs (full_backlog [Some socket_closed])))
     = job_ids (MAX_PROCESSED_IDS + 1) \<and>
   \<not> length (processedMessageIds
        (fst (consume_run (MAX_PROCESSED_IDS + 1) jobs (full_backlog [Some socket_closed]))))
       \<le> MAX_PROCESSED_IDS"
proof -
  have e: "MAX_PROCESSED_IDS + 1 = Suc MAX_PROCESSED_IDS" by simp
  note f = full_backlog_failed[of socket_closed]
  have "\<not> length (job_ids (Suc MAX_PROCESSED_IDS)) \<le> MAX_PROCESSED_IDS"
    by (simp add: length_job_ids)
  with f distinct_job_ids[of "Suc MAX_PROCESSED_IDS"] length_job_ids[of "Suc MAX_PROCESSED_IDS"]
  show ?thesis unfolding e by simp
qed

theorem one_purge_at_the_mark_witness:
  "processedMessageIds jobs = [] \<and>
   distinct (acked ''stream:jobs'' ''jobs:consumer:group''
     (since (full_backlog [])
        (snd (consume_run (MAX_PROCESSED_IDS + 1) jobs (full_backlog []))))) \<and>
   length (acked ''stream:jobs'' ''jobs:consumer:group''
     (since (full_backlog [])
        (snd (consume_run (MAX_PROCESSED_IDS + 1) jobs (full_backlog [])))))
     = MAX_PROCESSED_IDS + 1 \<and>
   purges ''stream:jobs''
     (since (full_backlog [])
        (snd (consume_run (MAX_PROCESSED_IDS + 1) jobs (full_backlog []))))
     = [(job_ids (MAX_PROCESSED_IDS + 1), True)] \<and>
   processedMessageIds (fst (consume_run (MAX_PROCESSED_IDS + 1) jobs (full_backlog []))) = [] \<and>
   length (processedMessageIds (fst (consume_run (MAX_PROCESSED_IDS + 1) jobs (full_backlog []))))
     \<le> MAX_PROCESSED_IDS"
proof -
  define w where "w = full_backlog []"
  define R where "R = consume_run (MAX_PROCESSED_IDS + 1) jobs w"
  define A where "A = acked ''stream:jobs'' ''jobs:consumer:group'' (since w (snd R))"
  have e: "MAX_PROCESSED_IDS + 1 = Suc MAX_PROCESSED_IDS" by simp
  have a: "A = job_ids (MAX_PROCESSED_IDS + 1)"
    and p: "purges ''stream:jobs'' (since w (snd R)) = [(job_ids (MAX_PROCESSED_IDS + 1), True)]"
    using full_backlog_ok unfolding A_def R_def w_def e by blast+
  have h1: "processedMessageIds jobs = []" by simp
  have h2: "consume_run (MAX_PROCESSED_IDS + 1) jobs w = (fst R, snd R)"
    unfolding R_def by (rule prod.collapse[symmetric])
  have n: "acked (streamName jobs) (consumerGroup jobs) (since w (snd R)) = A"
    "purges (streamName jobs) (since w (snd R)) = purges ''stream:jobs'' (since w (snd R))"
    by (simp_all add: A_def)
  have h3: "distinct (acked (streamName jobs) (consumerGroup jobs) (since w (snd R)))"
    unfolding n a by (rule distinct_job_ids)
  have h4: "length (acked (streamName jobs) (consumerGroup jobs) (since w (snd R)))
      = MAX_PROCESSED_IDS + 1"
    unfolding n a by (rule length_job_ids)
  from one_purge_at_the_mark
    [of jobs "MAX_PROCESSED_IDS + 1" w "fst R" "snd R", OF h1 h2 h3 h4]
  obtain ok where
    "purges (streamName jobs) (since w (snd R)) = [(A, ok)]"
    and b: "processedMessageIds (fst R) = (if ok then [] else A)"
    unfolding n(1) by blast
  with p n(2) have "ok" by simp
  with b have 1: "processedMessageIds (fst R) = []" by simp
  have "processedMessageIds jobs = [] \<and> distinct A \<and> length A = MAX_PROCESSED_IDS + 1 \<and>
    purges ''stream:jobs'' (since w (snd R)) = [(job_ids (MAX_PROCESSED_IDS + 1), True)] \<and>
    processedMessageIds (fst R) = [] \<and>
    length (processedMessageIds (fst R)) \<le> MAX_PROCESSED_IDS"
    using h1 h3 h4 p 1 unfolding n by simp
  then show ?thesis unfolding A_def R_def w_def .
qed

end
